theory Spec2Isabelle
  imports Main "HOL-Library.AList" "HOL-Library.Sublist"
begin

section \<open>JavaScript values\<close>

text \<open>
  The repository holds two variants of the facade: the prototype-based
  \<^verbatim>\<open>src/YouTubeAudio.js\<close> (fixed callback lists, guarded methods, its own playlist
  and index) and the class-based \<^verbatim>\<open>src/unnamed/part_000\<close> (the listener registry
  with ids and limits). Both are embedded here, each function under the name it has in
  the source.

  Numbers are the integral JavaScript numbers and \<open>NaN\<close>. The index into the playlist
  is an integer of any size: on the indices of an array the arithmetic of doubles is
  exact. A listener's limit is an integer that is a double, and its decrement is
  rounded as the doubles round it. Strings are lists of 8-bit code units; an array is a
  reference into a store of arrays of strings; an event object is opaque. A lookup by
  name is a lookup among the own properties (and, for a method, the prototype's): names
  that an object inherits from \<^verbatim>\<open>Object.prototype\<close>, used as event names or as method
  keys, are outside the embedding.
\<close>

datatype jsnum = Finite int | NaN

type_synonym addr = nat

datatype val =
    Undefined
  | Null
  | Bool bool
  | Number jsnum
  | Str string
  | Array addr
  | Object nat
  | This

datatype exn =
    TypeError
  | Error string
  | Thrown val

fun truthy :: "val \<Rightarrow> bool" where
  "truthy Undefined = False"
| "truthy Null = False"
| "truthy (Bool b) = b"
| "truthy (Number (Finite n)) = (n \<noteq> 0)"
| "truthy (Number NaN) = False"
| "truthy (Str s) = (s \<noteq> [])"
| "truthy (Array a) = True"
| "truthy (Object n) = True"
| "truthy This = True"

text \<open>
  A function value passed to the facade (a callback): called with an argument list, it
  may throw, and it acts on the world outside the facade (type \<open>'w\<close>: the page, the
  caller's variables, the widget). Callbacks are not given the facade's own state.
\<close>

type_synonym 'w handler = "val list \<Rightarrow> 'w \<Rightarrow> exn option \<times> 'w"

record 'w host =
  world :: 'w
  timers :: "exn list"  \<comment> \<open>exceptions queued by \<^verbatim>\<open>setTimeout(function() { throw e; }, 0)\<close>\<close>

section \<open>parseVideoId\<close>

subsection \<open>src/YouTubeAudio.js\<close>

text \<open>
  \<^verbatim>\<open>source.replace(/^[^]*?[\?&]v=([^&]+)[^]*$|^[^]*?:\/\/youtu.be\/([^\/\?]+)[^]*$/, '$1$2')\<close>

  Both alternatives are anchored at both ends, so a match replaces the whole string by
  its group. \<open>match_v\<close> is the first alternative: the lazy prefix stops at the first
  \<^verbatim>\<open>?v=\<close> or \<^verbatim>\<open>&v=\<close> that is followed by a character other than \<^verbatim>\<open>&\<close>, and the
  group is the longest run of such characters. \<open>match_short\<close> is the second: the
  first \<^verbatim>\<open>://youtu\<close>, any character but a line terminator (the dot is not escaped),
  \<^verbatim>\<open>be/\<close>, and the longest non-empty run of characters other than \<^verbatim>\<open>/\<close> and
  \<^verbatim>\<open>?\<close>.
\<close>

definition line_terminator :: "char \<Rightarrow> bool" where
  "line_terminator c = (c = CHR 0x0A \<or> c = CHR 0x0D)"

fun match_v :: "string \<Rightarrow> string option" where
  "match_v [] = None"
| "match_v (c # cs) =
     (if (c = CHR ''?'' \<or> c = CHR ''&'') \<and> take 2 cs = ''v=''
         \<and> (case drop 2 cs of [] \<Rightarrow> False | d # ds \<Rightarrow> d \<noteq> CHR ''&'')
      then Some (takeWhile (\<lambda>d. d \<noteq> CHR ''&'') (drop 2 cs))
      else match_v cs)"

fun match_short :: "string \<Rightarrow> string option" where
  "match_short [] = None"
| "match_short (c # cs) =
     (if take 8 (c # cs) = ''://youtu''
         \<and> (case drop 8 (c # cs) of [] \<Rightarrow> False | d # ds \<Rightarrow> \<not> line_terminator d)
         \<and> take 3 (drop 9 (c # cs)) = ''be/''
         \<and> (case drop 12 (c # cs) of [] \<Rightarrow> False
             | d # ds \<Rightarrow> d \<noteq> CHR ''/'' \<and> d \<noteq> CHR ''?'')
      then Some (takeWhile (\<lambda>d. d \<noteq> CHR ''/'' \<and> d \<noteq> CHR ''?'') (drop 12 (c # cs)))
      else match_short cs)"

definition parseVideoId :: "string \<Rightarrow> string" where
  "parseVideoId source =
     (case match_v source of
        Some g1 \<Rightarrow> g1
      | None \<Rightarrow> (case match_short source of Some g2 \<Rightarrow> g2 | None \<Rightarrow> source))"

definition getUrlFromVideoId :: "string \<Rightarrow> string" where
  "getUrlFromVideoId videoId = ''https://youtu.be/'' @ videoId"

subsection \<open>src/unnamed/part_000\<close>

text \<open>
  \<^verbatim>\<open>urlOrId.replace(/^https?\:\/\/(?:youtu\.be\/([\w\-]+)[^]*|[^]+[\?&]v=([\w\-]+))$|([\w\-]+)/g, '$1$2$3')\<close>

  \<open>id_char\<close> is the class \<^verbatim>\<open>[\w\-]\<close>. The first alternative can only match at
  index 0 and then takes the whole string (\<open>match_url\<close>): after the scheme, either
  \<^verbatim>\<open>youtu.be/\<close> and the longest non-empty run of \<open>id_char\<close>, or at least one
  character, then \<^verbatim>\<open>?v=\<close> or \<^verbatim>\<open>&v=\<close>, then a non-empty run of \<open>id_char\<close> up to
  the end of the string (\<open>match_watch\<close>; the run holds no \<^verbatim>\<open>?\<close> or \<^verbatim>\<open>&\<close>, so at
  most one position qualifies and the greedy search finds the same one). When it does
  not match, the global flag makes the third alternative replace every maximal run of
  \<open>id_char\<close> by itself (\<open>replace_runs\<close>).
\<close>

definition id_char :: "char \<Rightarrow> bool" where
  "id_char c =
     (c \<in> set ''abcdefghijklmnopqrstuvwxyzABCDEFGHIJKLMNOPQRSTUVWXYZ0123456789_-'')"

fun match_watch :: "string \<Rightarrow> string option" where
  "match_watch [] = None"
| "match_watch (c # cs) =
     (if (c = CHR ''?'' \<or> c = CHR ''&'') \<and> take 2 cs = ''v=''
         \<and> drop 2 cs \<noteq> [] \<and> list_all id_char (drop 2 cs)
      then Some (drop 2 cs)
      else match_watch cs)"

definition strip_scheme :: "string \<Rightarrow> string option" where
  "strip_scheme s =
     (if take 8 s = ''https://'' then Some (drop 8 s)
      else if take 7 s = ''http://'' then Some (drop 7 s)
      else None)"

definition match_url :: "string \<Rightarrow> string option" where
  "match_url s =
     (case strip_scheme s of
        None \<Rightarrow> None
      | Some rest \<Rightarrow>
          if take 9 rest = ''youtu.be/''
             \<and> (case drop 9 rest of [] \<Rightarrow> False | d # ds \<Rightarrow> id_char d)
          then Some (takeWhile id_char (drop 9 rest))
          else (case rest of [] \<Rightarrow> None | x # xs \<Rightarrow> match_watch xs))"

function replace_runs :: "string \<Rightarrow> string" where
  "replace_runs [] = []"
| "replace_runs (c # cs) =
     (if id_char c
      then takeWhile id_char (c # cs) @ replace_runs (dropWhile id_char (c # cs))
      else c # replace_runs cs)"
  by pat_completeness auto
termination
  by (relation "measure length") (auto simp: le_imp_less_Suc length_dropWhile_le)

definition parseVideoId_es6 :: "string \<Rightarrow> string" where
  "parseVideoId_es6 urlOrId =
     (case match_url urlOrId of Some g \<Rightarrow> g | None \<Rightarrow> replace_runs urlOrId)"

text \<open>A bare identifier: a non-empty string of letters, digits, \<^verbatim>\<open>_\<close> and \<^verbatim>\<open>-\<close>.\<close>

definition bare :: "string \<Rightarrow> bool" where
  "bare s = (s \<noteq> [] \<and> list_all id_char s)"

section \<open>The listener registry (src/unnamed/part_000)\<close>

subsection \<open>Listener ids and handles\<close>

text \<open>
  A listener's handle is \<^verbatim>\<open>eventName + ':' + id\<close>; \<open>off\<close> reads it back with
  \<^verbatim>\<open>listenerId.split(':', 2)\<close>, which keeps the first two of the colon-separated
  pieces. \<open>show_nat\<close> is the decimal numeral JavaScript prints for a non-negative
  integer; an id is such an integer, or \<open>NaN\<close> once \<^verbatim>\<open>nextId\<close> is no longer a number.
  The ids of a table count its registrations from 1, so they stay in the range where
  \<^verbatim>\<open>nextId++\<close> is exact and the numeral has no exponent.
\<close>

definition digit :: "nat \<Rightarrow> char" where
  "digit d = ''0123456789'' ! d"

function show_nat :: "nat \<Rightarrow> string" where
  "show_nat n = (if n < 10 then [digit n] else show_nat (n div 10) @ [digit (n mod 10)])"
  by pat_completeness auto
termination
  by (relation "measure id") auto

declare show_nat.simps [simp del]

datatype idnum = IdNum nat | IdNaN

fun id_key :: "idnum \<Rightarrow> string" where
  "id_key (IdNum n) = show_nat n"
| "id_key IdNaN = ''NaN''"

fun incr :: "idnum \<Rightarrow> idnum" where
  "incr (IdNum n) = IdNum (n + 1)"
| "incr IdNaN = IdNaN"

definition split2 :: "string \<Rightarrow> string \<times> string option" where
  "split2 s =
     (takeWhile (\<lambda>c. c \<noteq> CHR '':'') s,
      case dropWhile (\<lambda>c. c \<noteq> CHR '':'') s of
        [] \<Rightarrow> None
      | c # rest \<Rightarrow> Some (takeWhile (\<lambda>c. c \<noteq> CHR '':'') rest))"

subsection \<open>Listener records and tables\<close>

text \<open>
  \<open>limit\<close> is the number held by a listener record: an integer that is a double, or
  \<^verbatim>\<open>Infinity\<close>, the default. \<open>positive l\<close> is the test \<^verbatim>\<open>0 < l\<close> and \<open>decr l\<close>
  the value \<^verbatim>\<open>l - 1\<close> that \<^verbatim>\<open>0 < listener.limit--\<close> stores.

  The subtraction is the one of doubles. Every integer of magnitude up to \<open>2^53\<close> is a
  double; from there on the doubles are \<open>spacing\<close> apart (2 up to \<open>2^54\<close>, then 4, and
  so on), and \<open>to_double n\<close> is the double nearest to the integer \<open>n\<close>, the one with the
  even significand when two are equally near. So \<open>decr\<close> lowers a limit by one up to
  \<open>2^53\<close> and leaves a limit of \<open>2^54\<close> or more as it is.
\<close>

datatype limit = Limit int | Infinity

fun positive :: "limit \<Rightarrow> bool" where
  "positive (Limit n) = (0 < n)"
| "positive Infinity = True"

function spacing :: "nat \<Rightarrow> nat" where
  "spacing m = (if m < 2 ^ 53 then 1 else 2 * spacing (m div 2))"
  by pat_completeness auto
termination
  by (relation "measure id") auto

declare spacing.simps [simp del]

definition to_double :: "int \<Rightarrow> int" where
  "to_double n =
     (let u = int (spacing (nat \<bar>n\<bar>)); q = n div u; r = n mod u
      in if 2 * r < u then q * u
         else if u < 2 * r then (q + 1) * u
         else if even q then q * u
         else (q + 1) * u)"

fun decr :: "limit \<Rightarrow> limit" where
  "decr (Limit n) = Limit (to_double (n - 1))"
| "decr Infinity = Infinity"

record 'w listener =
  handler :: "'w handler"
  limit :: limit

text \<open>
  The object \<^verbatim>\<open>{ nextId: 1 }\<close> that holds the listeners of one event name: the
  property \<^verbatim>\<open>nextId\<close> (absent once deleted), the records under their integer ids in
  the order they were added, and the record under the key \<^verbatim>\<open>NaN\<close>. A
  \<^verbatim>\<open>for (let id in listeners)\<close> visits the integer keys in ascending order; the
  other keys convert to \<open>NaN\<close> and are skipped by \<^verbatim>\<open>id === id\<close>.
\<close>

record 'w listeners =
  nextId :: "idnum option"
  byId :: "(nat \<times> 'w listener) list"
  byNaN :: "'w listener option"

definition new_listeners :: "'w listeners" where
  "new_listeners = \<lparr>nextId = Some (IdNum 1), byId = [], byNaN = None\<rparr>"

definition for_in_ids :: "'w listeners \<Rightarrow> nat list" where
  "for_in_ids ls = sort (remdups (map fst (byId ls)))"

definition set_listener :: "'w listeners \<Rightarrow> idnum \<Rightarrow> 'w listener \<Rightarrow> 'w listeners" where
  "set_listener ls i l =
     (case i of
        IdNum n \<Rightarrow> ls\<lparr>byId := AList.update n l (byId ls)\<rparr>
      | IdNaN \<Rightarrow> ls\<lparr>byNaN := Some l\<rparr>)"

text \<open>
  Reading and deleting a property of the table by a string key, as \<open>off\<close> does. The
  table is a plain object, so a key that is not its own resolves to the member of
  \<^verbatim>\<open>Object.prototype\<close> of that name if there is one.
\<close>

definition Object_prototype :: "string list" where
  "Object_prototype =
     [''constructor'', ''hasOwnProperty'', ''isPrototypeOf'', ''propertyIsEnumerable'',
      ''toLocaleString'', ''toString'', ''valueOf'', ''__proto__'', ''__defineGetter__'',
      ''__defineSetter__'', ''__lookupGetter__'', ''__lookupSetter__'']"

datatype 'w slot = Record "'w listener" | Other | Missing

definition get_prop :: "'w listeners \<Rightarrow> string \<Rightarrow> 'w slot" where
  "get_prop ls k =
     (if k = ''nextId'' then (case nextId ls of Some n \<Rightarrow> Other | None \<Rightarrow> Missing)
      else if k = ''NaN'' then (case byNaN ls of Some l \<Rightarrow> Record l | None \<Rightarrow> Missing)
      else (case map_of (map (\<lambda>(i, l). (show_nat i, l)) (byId ls)) k of
              Some l \<Rightarrow> Record l
            | None \<Rightarrow> if k \<in> set Object_prototype then Other else Missing))"

definition delete_prop :: "'w listeners \<Rightarrow> string \<Rightarrow> 'w listeners" where
  "delete_prop ls k =
     (if k = ''nextId'' then ls\<lparr>nextId := None\<rparr>
      else if k = ''NaN'' then ls\<lparr>byNaN := None\<rparr>
      else ls\<lparr>byId := filter (\<lambda>(i, l). show_nat i \<noteq> k) (byId ls)\<rparr>)"

subsection \<open>The session\<close>

text \<open>
  \<open>listenersByName\<close> is read as an own-property lookup, which is what JavaScript does
  for every event name that is not a member of \<^verbatim>\<open>Object.prototype\<close>.
  \<open>readyArguments\<close> is the \<^verbatim>\<open>arguments\<close> object of the widget's ready callback once
  it has run. \<open>calls\<close> is an observation log: it records every
  \<^verbatim>\<open>listener.handler.apply(this, args)\<close> with the event name and the listener's id.
\<close>

record 'w session = "'w host" +
  listenersByName :: "string \<Rightarrow> 'w listeners option"
  readyArguments :: "val list option"
  calls :: "(string \<times> idnum \<times> val list) list"

definition apply_handler ::
  "string \<Rightarrow> idnum \<Rightarrow> 'w listener \<Rightarrow> val list \<Rightarrow> 'w session \<Rightarrow> 'w session" where
  "apply_handler eventName i l args st =
     (case handler l args (world st) of
        (e, w) \<Rightarrow>
          st\<lparr>world := w,
             timers := timers st @ (case e of None \<Rightarrow> [] | Some x \<Rightarrow> [x]),
             calls := calls st @ [(eventName, i, args)]\<rparr>)"

definition off ::
  "string \<Rightarrow> 'w session \<Rightarrow> (exn + 'w handler option) \<times> 'w session" where
  "off listenerId st =
     (case split2 listenerId of
        (eventName, part) \<Rightarrow>
          (let key = (case part of None \<Rightarrow> ''undefined'' | Some k \<Rightarrow> k) in
           case listenersByName st eventName of
             None \<Rightarrow> (Inl TypeError, st)
           | Some ls \<Rightarrow>
               (let st' = st\<lparr>listenersByName :=
                              (listenersByName st)(eventName \<mapsto> delete_prop ls key)\<rparr>
                in case get_prop ls key of
                     Missing \<Rightarrow> (Inl TypeError, st')
                   | Record l \<Rightarrow> (Inr (Some (handler l)), st')
                   | Other \<Rightarrow> (Inr None, st'))))"

text \<open>
  \<open>trigger_loop\<close> is the body of \<^verbatim>\<open>for (let id in listeners)\<close> over the integer
  keys the loop has listed at its start; a key whose record is gone when its turn
  comes is not visited. An exception of \<open>off\<close> is not caught and ends the loop.
  \<open>trigger\<close> returns \<open>undefined\<close> when the event name has no table and \<open>this\<close>
  after the loop.
\<close>

fun trigger_loop ::
  "string \<Rightarrow> val list \<Rightarrow> nat list \<Rightarrow> 'w session \<Rightarrow> exn option \<times> 'w session" where
  "trigger_loop eventName args [] st = (None, st)"
| "trigger_loop eventName args (i # ids) st =
     (case listenersByName st eventName of
        None \<Rightarrow> (None, st)
      | Some ls \<Rightarrow>
          (case map_of (byId ls) i of
             None \<Rightarrow> trigger_loop eventName args ids st
           | Some l \<Rightarrow>
               (let st1 = st\<lparr>listenersByName := (listenersByName st)
                              (eventName \<mapsto>
                                 ls\<lparr>byId := AList.update i (l\<lparr>limit := decr (limit l)\<rparr>)
                                                (byId ls)\<rparr>)\<rparr>
                in if positive (limit l)
                   then trigger_loop eventName args ids
                          (apply_handler eventName (IdNum i) l args st1)
                   else (case off (eventName @ '':'' @ show_nat i) st1 of
                           (Inl e, st2) \<Rightarrow> (Some e, st2)
                         | (Inr h, st2) \<Rightarrow> trigger_loop eventName args ids st2))))"

definition trigger ::
  "string \<Rightarrow> val list \<Rightarrow> 'w session \<Rightarrow> (exn + val) \<times> 'w session" where
  "trigger eventName args st =
     (case listenersByName st eventName of
        None \<Rightarrow> (Inr Undefined, st)
      | Some ls \<Rightarrow>
          (case trigger_loop eventName args (for_in_ids ls) st of
             (None, st') \<Rightarrow> (Inr This, st')
           | (Some e, st') \<Rightarrow> (Inl e, st')))"

definition on ::
  "string \<Rightarrow> 'w handler \<Rightarrow> limit option \<Rightarrow> 'w session \<Rightarrow> string \<times> 'w session" where
  "on eventName callback opt_limit st =
     (let listeners = (case listenersByName st eventName of
                         Some ls \<Rightarrow> ls
                       | None \<Rightarrow> new_listeners);
          i = (case nextId listeners of Some n \<Rightarrow> n | None \<Rightarrow> IdNaN);
          listener = \<lparr>handler = callback,
                      limit = (case opt_limit of None \<Rightarrow> Infinity | Some n \<Rightarrow> n)\<rparr>;
          replay = (if eventName = ''ready'' then readyArguments st else None);
          stored = (case replay of
                      None \<Rightarrow> listener
                    | Some ra \<Rightarrow> listener\<lparr>limit := decr (limit listener)\<rparr>);
          st1 = st\<lparr>listenersByName := (listenersByName st)
                       (eventName \<mapsto> set_listener (listeners\<lparr>nextId := Some (incr i)\<rparr>) i stored)\<rparr>;
          st2 = (case replay of
                   None \<Rightarrow> st1
                 | Some ra \<Rightarrow>
                     if positive (limit listener)
                     then apply_handler eventName i listener ra st1
                     else st1)
      in (eventName @ '':'' @ id_key i, st2))"

definition new_session :: "'w \<Rightarrow> 'w session" where
  "new_session w =
     \<lparr>world = w, timers = [], listenersByName = (\<lambda>e. None), readyArguments = None,
      calls = []\<rparr>"

text \<open>The id that \<open>on\<close> gives the next listener of an event name.\<close>

definition next_id :: "'w session \<Rightarrow> string \<Rightarrow> idnum" where
  "next_id st e =
     (case listenersByName st e of
        None \<Rightarrow> IdNum 1
      | Some ls \<Rightarrow> (case nextId ls of Some n \<Rightarrow> n | None \<Rightarrow> IdNaN))"

subsection \<open>Reading a dispatch\<close>

text \<open>
  What the theorems about \<open>trigger\<close> speak of: the record of listener \<open>i\<close> of an
  event name, the number of logged calls of that listener, a run of \<open>trigger\<close> over a
  list of argument lists, and the effect of calling a list of handlers one after the
  other, each in the world the one before has left, with what they throw collected
  in order. \<open>live f ids\<close> are the listeners among \<open>ids\<close> whose limit is above 0, and
  \<open>visit\<close> is one round of the loop of \<open>trigger\<close> when \<open>off\<close> finds the record.
\<close>

definition listener_of :: "'w session \<Rightarrow> string \<Rightarrow> nat \<Rightarrow> 'w listener option" where
  "listener_of st e i =
     (case listenersByName st e of None \<Rightarrow> None | Some ls \<Rightarrow> map_of (byId ls) i)"

definition count_calls :: "string \<Rightarrow> nat \<Rightarrow> 'w session \<Rightarrow> nat" where
  "count_calls e i st = length (filter (\<lambda>c. fst c = e \<and> fst (snd c) = IdNum i) (calls st))"

definition dispatches :: "string \<Rightarrow> val list list \<Rightarrow> 'w session \<Rightarrow> 'w session" where
  "dispatches e argss st = foldl (\<lambda>s args. snd (trigger e args s)) st argss"

fun run_handlers :: "val list \<Rightarrow> 'w handler list \<Rightarrow> 'w \<Rightarrow> exn list \<times> 'w" where
  "run_handlers args [] w = ([], w)"
| "run_handlers args (h # hs) w =
     (case h args w of
        (x, w1) \<Rightarrow>
          (case run_handlers args hs w1 of
             (xs, w2) \<Rightarrow> ((case x of None \<Rightarrow> [] | Some v \<Rightarrow> [v]) @ xs, w2)))"

definition live :: "(nat \<Rightarrow> 'w listener option) \<Rightarrow> nat list \<Rightarrow> (nat \<times> 'w listener) list" where
  "live f ids =
     concat (map (\<lambda>i. case f i of
                         None \<Rightarrow> []
                       | Some l \<Rightarrow> if positive (limit l) then [(i, l)] else []) ids)"

definition visit :: "string \<Rightarrow> val list \<Rightarrow> 'w session \<Rightarrow> nat \<Rightarrow> 'w session" where
  "visit e args st i =
     (case listenersByName st e of
        None \<Rightarrow> st
      | Some ls \<Rightarrow>
          (case map_of (byId ls) i of
             None \<Rightarrow> st
           | Some l \<Rightarrow>
               if positive (limit l)
               then apply_handler e (IdNum i) l args
                      (st\<lparr>listenersByName := (listenersByName st)
                            (e \<mapsto> ls\<lparr>byId := AList.update i (l\<lparr>limit := decr (limit l)\<rparr>)
                                              (byId ls)\<rparr>)\<rparr>)
               else st\<lparr>listenersByName := (listenersByName st)
                         (e \<mapsto> ls\<lparr>byId := filter (\<lambda>(k, r). k \<noteq> i) (byId ls)\<rparr>)\<rparr>))"

subsection \<open>Concrete sessions\<close>

text \<open>
  A handler that counts its calls in the world. \<open>ready_session\<close> has seen the
  widget's ready callback; \<open>x_session\<close> has one unlimited listener on \<^verbatim>\<open>x\<close>;
  \<open>colon_session\<close> has one listener of limit 0 on the event name \<^verbatim>\<open>a:b\<close>, and
  \<open>colon_pair\<close> an unlimited second one.
\<close>

definition counting :: "nat handler" where
  "counting args w = (None, Suc w)"

definition ready_session :: "nat session" where
  "ready_session = (new_session 0)\<lparr>readyArguments := Some [Object 0]\<rparr>"

definition x_session :: "nat session" where
  "x_session = snd (on ''x'' counting None (new_session 0))"

definition colon_session :: "nat session" where
  "colon_session = snd (on ''a:b'' counting (Some (Limit 0)) (new_session 0))"

definition colon_pair :: "nat session" where
  "colon_pair = snd (on ''a:b'' counting None colon_session)"

section \<open>The guarded facade (src/YouTubeAudio.js)\<close>

subsection \<open>Numbers\<close>

text \<open>
  \<^verbatim>\<open>function mod(a, b) { return (a % b + b) % b; }\<close> with JavaScript's remainder,
  which takes the sign of the dividend and is \<open>NaN\<close> for a zero divisor.
\<close>

fun rem_js :: "jsnum \<Rightarrow> jsnum \<Rightarrow> jsnum" where
  "rem_js (Finite a) (Finite b) = (if b = 0 then NaN else Finite (sgn a * (\<bar>a\<bar> mod \<bar>b\<bar>)))"
| "rem_js NaN b = NaN"
| "rem_js a NaN = NaN"

fun add_js :: "jsnum \<Rightarrow> jsnum \<Rightarrow> jsnum" where
  "add_js (Finite a) (Finite b) = Finite (a + b)"
| "add_js NaN b = NaN"
| "add_js a NaN = NaN"

definition mod_js :: "jsnum \<Rightarrow> jsnum \<Rightarrow> jsnum" where
  "mod_js a b = rem_js (add_js (rem_js a b) b) b"

subsection \<open>The object\<close>

text \<open>
  An argument or a stored value is a plain value or a function. Calling a plain value
  as a function throws a \<open>TypeError\<close>.
\<close>

datatype 'w arg = Value val | Callback "'w handler"

fun as_handler :: "'w arg \<Rightarrow> 'w handler" where
  "as_handler (Callback h) = h"
| "as_handler (Value v) = (\<lambda>args w. (Some TypeError, w))"

definition nth_arg :: "'w arg list \<Rightarrow> nat \<Rightarrow> 'w arg" where
  "nth_arg args n = (if n < length args then args ! n else Value Undefined)"

text \<open>The widget behind \<^verbatim>\<open>_player\<close>: a method name and arguments give a result.\<close>

type_synonym 'w widget = "string \<Rightarrow> 'w arg list \<Rightarrow> 'w \<Rightarrow> val \<times> 'w"

record options =
  sources :: "string list"
  shuffle :: val
  loop_option :: val
  autoPlay_option :: val
  logEarlyCalls :: val

text \<open>
  The instance after its constructor has run \<open>init\<close>. \<open>guards\<close> lists the keys whose
  own property is the guard installed by \<open>init\<close>; \<open>arrays\<close> is the store of arrays,
  an address being an index into it; \<open>callbacks\<close> holds the arrays
  \<^verbatim>\<open>_readyCallbacks\<close>, \<^verbatim>\<open>_playingCallbacks\<close>, ... by event name; \<open>stateNames\<close> is
  \<^verbatim>\<open>PLAYER_STATES_TO_NAMES\<close>; \<open>console\<close> collects the messages of
  \<^verbatim>\<open>console.error\<close>.
\<close>

record 'w yta = "'w host" +
  isReady :: bool
  readyEvent :: val
  videoIds :: "addr option"
  index :: jsnum
  player :: "'w widget option"
  loop :: "'w arg"
  autoPlay :: val
  callbacks :: "string \<Rightarrow> 'w handler list option"
  guards :: "string list"
  options :: options
  arrays :: "string list list"
  stateNames :: "val \<Rightarrow> val"
  console :: "string list"

type_synonym 'w meth = "'w arg list \<Rightarrow> 'w yta \<Rightarrow> (exn + 'w arg) \<times> 'w yta"

text \<open>
  Reading and allocating in the store. Every address the program holds has been
  allocated; \<open>array_at\<close> gives the empty array for any other.
\<close>

definition array_at :: "'w yta \<Rightarrow> addr \<Rightarrow> string list" where
  "array_at st a = (if a < length (arrays st) then arrays st ! a else [])"

definition new_array :: "string list \<Rightarrow> 'w yta \<Rightarrow> addr \<times> 'w yta" where
  "new_array xs st = (length (arrays st), st\<lparr>arrays := arrays st @ [xs]\<rparr>)"

fun element :: "string list \<Rightarrow> jsnum \<Rightarrow> val" where
  "element xs (Finite i) = (if 0 \<le> i \<and> i < int (length xs) then Str (xs ! nat i) else Undefined)"
| "element xs NaN = Undefined"

definition player_call :: "string \<Rightarrow> 'w arg list \<Rightarrow> 'w yta \<Rightarrow> (exn + val) \<times> 'w yta" where
  "player_call name args st =
     (case player st of
        None \<Rightarrow> (Inl TypeError, st)
      | Some wd \<Rightarrow> (case wd name args (world st) of (r, w) \<Rightarrow> (Inr r, st\<lparr>world := w\<rparr>)))"

subsection \<open>The prototype's methods\<close>

definition getVideoIds :: "'w meth" where
  "getVideoIds args st =
     (case videoIds st of
        None \<Rightarrow> (Inl TypeError, st)
      | Some a \<Rightarrow> (case new_array (array_at st a) st of (b, st') \<Rightarrow> (Inr (Value (Array b)), st')))"

definition getVideoUrls :: "'w meth" where
  "getVideoUrls args st =
     (case videoIds st of
        None \<Rightarrow> (Inl TypeError, st)
      | Some a \<Rightarrow>
          (case new_array (map getUrlFromVideoId (array_at st a)) st of
             (b, st') \<Rightarrow> (Inr (Value (Array b)), st')))"

definition getVideoId :: "'w meth" where
  "getVideoId args st =
     (case videoIds st of
        None \<Rightarrow> (Inl TypeError, st)
      | Some a \<Rightarrow> (Inr (Value (element (array_at st a) (index st))), st))"

definition setSources :: "'w meth" where
  "setSources args st =
     (case nth_arg args 0 of
        Value (Array a) \<Rightarrow>
          (case new_array (map parseVideoId (array_at st a)) st of
             (b, st') \<Rightarrow>
               (Inr (Value (case videoIds st of None \<Rightarrow> Null | Some old \<Rightarrow> Array old)),
                st'\<lparr>videoIds := Some b\<rparr>))
      | _ \<Rightarrow> (Inl TypeError, st))"

definition getStateName :: "'w meth" where
  "getStateName args st =
     (case player_call ''getPlayerState'' [] st of
        (Inl e, st') \<Rightarrow> (Inl e, st')
      | (Inr r, st') \<Rightarrow> (Inr (Value (stateNames st r)), st'))"

text \<open>
  \<^verbatim>\<open>this._player.loadVideoById(this.getVideoId())\<close>: the member of \<^verbatim>\<open>_player\<close> is
  read before the argument is evaluated; \<open>getVideoId\<close> is never guarded.
\<close>

definition loadCurrent :: "'w yta \<Rightarrow> (exn + 'w arg) \<times> 'w yta" where
  "loadCurrent st =
     (if player st = None then (Inl TypeError, st)
      else (case getVideoId [] st of
              (Inl e, st') \<Rightarrow> (Inl e, st')
            | (Inr v, st') \<Rightarrow>
                (case player_call ''loadVideoById'' [v] st' of
                   (Inl e, st'') \<Rightarrow> (Inl e, st'')
                 | (Inr r, st'') \<Rightarrow> (Inr (Value Undefined), st''))))"

definition playNext :: "'w meth" where
  "playNext args st =
     (case videoIds st of
        None \<Rightarrow> (Inl TypeError, st)
      | Some a \<Rightarrow>
          loadCurrent
            (st\<lparr>index := mod_js (add_js (index st) (Finite 1))
                               (Finite (int (length (array_at st a))))\<rparr>))"

definition playPrevious :: "'w meth" where
  "playPrevious args st =
     (case videoIds st of
        None \<Rightarrow> (Inl TypeError, st)
      | Some a \<Rightarrow>
          loadCurrent
            (st\<lparr>index := mod_js (add_js (index st) (Finite (- 1)))
                               (Finite (int (length (array_at st a))))\<rparr>))"

definition restart :: "'w meth" where
  "restart args st = loadCurrent st"

definition setVolume :: "'w meth" where
  "setVolume args st =
     (case player_call ''getVolume'' [] st of
        (Inl e, st') \<Rightarrow> (Inl e, st')
      | (Inr lastVolume, st') \<Rightarrow>
          (case player_call ''setVolume'' [nth_arg args 0] st' of
             (Inl e, st'') \<Rightarrow> (Inl e, st'')
           | (Inr r, st'') \<Rightarrow> (Inr (Value lastVolume), st'')))"

text \<open>
  \<open>onPlaying\<close>, \<open>onPause\<close>, \<open>onStart\<close>, \<open>onEnd\<close> and \<open>onStateChange\<close>:
  \<^verbatim>\<open>(this._xCallbacks = this._xCallbacks || []).push(callback)\<close>.
\<close>

definition subscribe :: "string \<Rightarrow> 'w meth" where
  "subscribe name args st =
     (Inr (Value Undefined),
      st\<lparr>callbacks := (callbacks st)
            (name \<mapsto> (case callbacks st name of None \<Rightarrow> [] | Some cs \<Rightarrow> cs)
                       @ [as_handler (nth_arg args 0)])\<rparr>)"

definition onReady :: "'w meth" where
  "onReady args st =
     (if isReady st
      then (case as_handler (nth_arg args 0) [readyEvent st] (world st) of
              (None, w) \<Rightarrow> (Inr (Value (Bool True)), st\<lparr>world := w\<rparr>)
            | (Some e, w) \<Rightarrow> (Inl e, st\<lparr>world := w\<rparr>))
      else (Inr (Value (Bool False)),
            st\<lparr>callbacks := (callbacks st)
                  (''ready'' \<mapsto> (case callbacks st ''ready'' of None \<Rightarrow> [] | Some cs \<Rightarrow> cs)
                                 @ [as_handler (nth_arg args 0)])\<rparr>))"

text \<open>
  The own property \<^verbatim>\<open>self.init\<close> that \<open>init\<close> installs; the prototype's
  \<^verbatim>\<open>constructor\<close> is \<^verbatim>\<open>YouTubeAudio\<close>, which calls \<^verbatim>\<open>this.init(options)\<close>.
\<close>

definition own_init :: "'w meth" where
  "own_init args st = (Inl (Error ''This object's init() function was already called.''), st)"

definition YouTubeAudio :: "'w meth" where
  "YouTubeAudio args st = own_init [nth_arg args 0] st"

text \<open>
  The methods generated from \<^verbatim>\<open>mapping\<close>:
  \<^verbatim>\<open>Function((value ? 'return ' : '') + 'this._player.' + fromKey + '.apply(this._player, arguments)')\<close>.
\<close>

definition forward :: "bool \<Rightarrow> string \<Rightarrow> 'w meth" where
  "forward returns fromKey args st =
     (case player_call fromKey args st of
        (Inl e, st') \<Rightarrow> (Inl e, st')
      | (Inr r, st') \<Rightarrow> (Inr (Value (if returns then r else Undefined)), st'))"

text \<open>
  \<^verbatim>\<open>is\<close> + state name:
  \<^verbatim>\<open>return PLAYER_STATES_TO_NAMES[this._player.getPlayerState()] === m\<close>.
\<close>

definition is_state :: "string \<Rightarrow> 'w meth" where
  "is_state m args st =
     (case player_call ''getPlayerState'' [] st of
        (Inl e, st') \<Rightarrow> (Inl e, st')
      | (Inr r, st') \<Rightarrow> (Inr (Value (Bool (stateNames st r = Str m))), st'))"

text \<open>The accessors generated from \<^verbatim>\<open>'*isReady loop *autoPlay'\<close>.\<close>

definition getIsReady :: "'w meth" where
  "getIsReady args st = (Inr (Value (Bool (isReady st))), st)"

definition setLoop :: "'w meth" where
  "setLoop args st = (Inr (loop st), st\<lparr>loop := nth_arg args 0\<rparr>)"

definition getLoop :: "'w meth" where
  "getLoop args st = (Inr (loop st), st)"

definition getAutoPlay :: "'w meth" where
  "getAutoPlay args st = (Inr (Value (autoPlay st)), st)"

subsection \<open>The prototype and the guards of init\<close>

text \<open>
  The keys of \<^verbatim>\<open>YouTubeAudio.prototype\<close> in the order of \<^verbatim>\<open>Object.keys\<close>: the
  object literal, then the keys added from \<^verbatim>\<open>mapping\<close> (\<^verbatim>\<open>getVideoUrl\<close> is
  overwritten in place; \<^verbatim>\<open>setVolume\<close> is built but not assigned), the state
  predicates and the accessors. \<open>Init\<close> stands for the prototype's own \<open>init\<close>,
  which every instance shadows with \<open>own_init\<close>.
\<close>

datatype 'w member = Field | Method "'w meth" | Init

fun is_function :: "'w member \<Rightarrow> bool" where
  "is_function Field = False"
| "is_function (Method m) = True"
| "is_function Init = True"

definition prototype :: "(string \<times> 'w member) list" where
  "prototype =
     [(''_isReady'', Field),
      (''_readyCallbacks'', Field),
      (''_readyEvent'', Field),
      (''_videoIds'', Field),
      (''_index'', Field),
      (''_player'', Field),
      (''constructor'', Method YouTubeAudio),
      (''getVideoIds'', Method getVideoIds),
      (''getVideoUrls'', Method getVideoUrls),
      (''getVideoId'', Method getVideoId),
      (''getVideoUrl'', Method (forward True ''getVideoUrl'')),
      (''setSources'', Method setSources),
      (''getStateName'', Method getStateName),
      (''playNext'', Method playNext),
      (''playPrevious'', Method playPrevious),
      (''restart'', Method restart),
      (''setVolume'', Method setVolume),
      (''onPlaying'', Method (subscribe ''playing'')),
      (''onPause'', Method (subscribe ''pause'')),
      (''onStart'', Method (subscribe ''start'')),
      (''onEnd'', Method (subscribe ''end'')),
      (''onStateChange'', Method (subscribe ''stateChange'')),
      (''onReady'', Method onReady),
      (''init'', Init),
      (''play'', Method (forward False ''playVideo'')),
      (''stop'', Method (forward False ''stopVideo'')),
      (''pause'', Method (forward False ''pauseVideo'')),
      (''getCurrentTime'', Method (forward True ''getCurrentTime'')),
      (''getVolume'', Method (forward True ''getVolume'')),
      (''unMute'', Method (forward False ''unMute'')),
      (''mute'', Method (forward False ''mute'')),
      (''seekTo'', Method (forward False ''seekTo'')),
      (''getVideoData'', Method (forward True ''getVideoData'')),
      (''getDuration'', Method (forward True ''getDuration'')),
      (''isMuted'', Method (forward True ''isMuted'')),
      (''isBuffering'', Method (is_state ''BUFFERING'')),
      (''isCued'', Method (is_state ''CUED'')),
      (''isEnded'', Method (is_state ''ENDED'')),
      (''isPaused'', Method (is_state ''PAUSED'')),
      (''isPlaying'', Method (is_state ''PLAYING'')),
      (''isUnstarted'', Method (is_state ''UNSTARTED'')),
      (''getIsReady'', Method getIsReady),
      (''setLoop'', Method setLoop),
      (''getLoop'', Method getLoop),
      (''getAutoPlay'', Method getAutoPlay)]"

text \<open>The test \<^verbatim>\<open>/^(init$|getVideoId$|on[A-Z])/.test(key)\<close>.\<close>

definition exempt :: "string \<Rightarrow> bool" where
  "exempt key =
     (key = ''init'' \<or> key = ''getVideoId''
      \<or> (take 2 key = ''on''
          \<and> (case drop 2 key of
                [] \<Rightarrow> False
              | c # cs \<Rightarrow> c \<in> set ''ABCDEFGHIJKLMNOPQRSTUVWXYZ'')))"

definition guarded :: "(string \<times> 'w member) list \<Rightarrow> string list" where
  "guarded proto = map fst (filter (\<lambda>(key, value). \<not> exempt key \<and> is_function value) proto)"

text \<open>
  \<open>call_prototype\<close> is \<^verbatim>\<open>self[key].apply(this, arguments)\<close> for a key that is not an
  own property of the instance; \<open>guard key\<close> is the function \<open>init\<close> stores under
  \<open>key\<close>; \<open>call\<close> is the call \<^verbatim>\<open>yta[key](...)\<close> on the instance, whose own
  properties (\<open>init\<close> and the guards) come before the prototype's. Calling a key that
  holds no function throws a \<open>TypeError\<close>.
\<close>

definition call_prototype :: "string \<Rightarrow> 'w meth" where
  "call_prototype key args st =
     (case map_of prototype key of
        Some (Method m) \<Rightarrow> m args st
      | Some Init \<Rightarrow> own_init args st
      | Some Field \<Rightarrow> (Inl TypeError, st)
      | None \<Rightarrow> (Inl TypeError, st))"

definition guard :: "string \<Rightarrow> 'w meth" where
  "guard key args st =
     (if isReady st
      then call_prototype key args (st\<lparr>guards := removeAll key (guards st)\<rparr>)
      else (let message = ''The '' @ key @ ''() function cannot be called yet.'' in
            if truthy (logEarlyCalls (options st))
            then (Inr (Value Undefined), st\<lparr>console := console st @ [message]\<rparr>)
            else (Inl (Error message), st)))"

definition call :: "string \<Rightarrow> 'w meth" where
  "call key args st =
     (if key = ''init'' then own_init args st
      else if key \<in> set (guards st) then guard key args st
      else call_prototype key args st)"

text \<open>
  \<open>init\<close> as the constructor runs it on a new instance: the fields have the
  prototype's values, \<^verbatim>\<open>self.init\<close> is replaced and the guards are installed. The
  polling that follows ends in \<open>addAudio\<close> once the page and the widget's script are
  loaded; the widget then calls \<open>player_onReady\<close>, the \<^verbatim>\<open>onReady\<close> handler given to
  \<^verbatim>\<open>new YouTube.Player\<close>. \<open>random_sort\<close> is the permutation that
  \<^verbatim>\<open>sort\<close> with the random comparator produces.
\<close>

definition init :: "options \<Rightarrow> 'w \<Rightarrow> 'w yta" where
  "init opts w =
     \<lparr>world = w, timers = [], isReady = False, readyEvent = Null, videoIds = None,
      index = Finite 0, player = None, loop = Value Undefined, autoPlay = Undefined,
      callbacks = (\<lambda>name. None),
      guards = guarded (prototype :: (string \<times> 'w member) list),
      options = opts, arrays = [], stateNames = (\<lambda>state. Undefined), console = []\<rparr>"

definition addAudio ::
  "(string list \<Rightarrow> string list) \<Rightarrow> 'w widget \<Rightarrow> (val \<Rightarrow> val) \<Rightarrow> 'w yta \<Rightarrow> 'w yta" where
  "addAudio random_sort wd names st =
     (case new_array
             (if truthy (shuffle (options st))
              then random_sort (map parseVideoId (sources (options st)))
              else map parseVideoId (sources (options st))) st of
        (a, st') \<Rightarrow>
          st'\<lparr>videoIds := Some a,
              loop := Value (Bool (truthy (loop_option (options st)))),
              autoPlay := (if autoPlay_option (options st) = Undefined
                              \<or> autoPlay_option (options st) = Null
                           then Bool True else autoPlay_option (options st)),
              player := Some wd,
              stateNames := names\<rparr>)"

text \<open>
  \<^verbatim>\<open>triggerHandlers(yta, name, event)\<close>: every callback of the list is called inside
  \<^verbatim>\<open>try\<close>, and what it throws is thrown again from a timer.
\<close>

definition run_callback :: "val \<Rightarrow> 'w yta \<Rightarrow> 'w handler \<Rightarrow> 'w yta" where
  "run_callback event st callback =
     (case callback [event] (world st) of
        (e, w) \<Rightarrow>
          st\<lparr>world := w, timers := timers st @ (case e of None \<Rightarrow> [] | Some x \<Rightarrow> [x])\<rparr>)"

definition triggerHandlers :: "string \<Rightarrow> val \<Rightarrow> 'w yta \<Rightarrow> 'w yta" where
  "triggerHandlers name event st =
     (let cbs = (case callbacks st name of None \<Rightarrow> [] | Some cs \<Rightarrow> cs)
      in foldl (run_callback event) (st\<lparr>callbacks := (callbacks st)(name \<mapsto> cbs)\<rparr>) cbs)"

definition player_onReady :: "val \<Rightarrow> 'w yta \<Rightarrow> 'w yta" where
  "player_onReady event st = triggerHandlers ''ready'' event (st\<lparr>isReady := True\<rparr>)"

text \<open>
  A caller's write to an array it holds a reference to: the array at address \<open>a\<close>
  gets the contents \<open>xs\<close>.
\<close>

definition write_array :: "addr \<Rightarrow> string list \<Rightarrow> 'w yta \<Rightarrow> 'w yta" where
  "write_array a xs st = st\<lparr>arrays := (arrays st)[a := xs]\<rparr>"

text \<open>
  A method is framed when it neither reads nor writes the guards and leaves the
  readiness flag as it is.
\<close>

definition frame :: "'w meth \<Rightarrow> bool" where
  "frame m =
     (\<forall>args st g.
        m args (st\<lparr>guards := g\<rparr>) = (case m args st of (r, st') \<Rightarrow> (r, st'\<lparr>guards := g\<rparr>))
        \<and> isReady (snd (m args st)) = isReady st)"

subsection \<open>A concrete session\<close>

text \<open>
  A playlist of three entries, the second given as a short link; a widget that answers
  every call with 50 and counts the calls in the world; the state names of the
  widget's \<^verbatim>\<open>PlayerState\<close>.
\<close>

definition example_options :: options where
  "example_options =
     \<lparr>sources = [''a1'', ''https://youtu.be/a2'', ''a3''], shuffle = Undefined,
      loop_option = Bool True, autoPlay_option = Undefined, logEarlyCalls = Undefined\<rparr>"

definition example_widget :: "nat widget" where
  "example_widget name args w = (Number (Finite 50), Suc w)"

definition example_names :: "val \<Rightarrow> val" where
  "example_names state =
     (if state = Number (Finite (- 1)) then Str ''UNSTARTED''
      else if state = Number (Finite 0) then Str ''ENDED''
      else if state = Number (Finite 1) then Str ''PLAYING''
      else if state = Number (Finite 2) then Str ''PAUSED''
      else if state = Number (Finite 3) then Str ''BUFFERING''
      else if state = Number (Finite 5) then Str ''CUED''
      else Undefined)"

definition example_yta :: "nat yta" where
  "example_yta = init example_options 0"

definition example_ready :: "nat yta" where
  "example_ready =
     player_onReady (Object 0) (addAudio id example_widget example_names example_yta)"

text \<open>
  A callback that appends its arguments to the world, and a widget that does nothing.
  \<open>early_subscriber\<close> is the instance after \<^verbatim>\<open>yta.onReady(recording)\<close> on the new
  instance and then the widget's ready callback with the event object \<open>Object 0\<close>;
  \<open>late_subscriber\<close> is the call \<^verbatim>\<open>yta.onReady(recording)\<close> after that ready callback.
\<close>

definition recording :: "val list handler" where
  "recording args w = (None, w @ args)"

definition quiet_widget :: "val list widget" where
  "quiet_widget name args w = (Undefined, w)"

definition new_yta :: "val list yta" where
  "new_yta = init example_options []"

definition early_subscriber :: "val list yta" where
  "early_subscriber =
     player_onReady (Object 0)
       (addAudio id quiet_widget example_names (snd (onReady [Callback recording] new_yta)))"

definition late_subscriber :: "(exn + val list arg) \<times> val list yta" where
  "late_subscriber =
     onReady [Callback recording]
       (player_onReady (Object 0) (addAudio id quiet_widget example_names new_yta))"

text \<open>
  The ready session after \<^verbatim>\<open>yta.playNext(); yta.playNext()\<close>, and then after
  \<^verbatim>\<open>yta.setSources(['x'])\<close>, the caller's array being allocated first.
\<close>

definition advanced :: "nat yta" where
  "advanced = snd (call ''playNext'' [] (snd (call ''playNext'' [] example_ready)))"

definition shortened :: "nat yta" where
  "shortened =
     snd (call ''setSources'' [Value (Array (fst (new_array [''x''] advanced)))]
            (snd (new_array [''x''] advanced)))"

section \<open>Properties of the guarded facade\<close>

subsection \<open>Auxiliary facts\<close>

lemma guarded_prototype:
  "guarded (prototype :: (string \<times> 'w member) list) =
     [''constructor'', ''getVideoIds'', ''getVideoUrls'', ''getVideoUrl'',
      ''setSources'', ''getStateName'', ''playNext'', ''playPrevious'',
      ''restart'', ''setVolume'', ''play'', ''stop'', ''pause'',
      ''getCurrentTime'', ''getVolume'', ''unMute'', ''mute'', ''seekTo'',
      ''getVideoData'', ''getDuration'', ''isMuted'', ''isBuffering'',
      ''isCued'', ''isEnded'', ''isPaused'', ''isPlaying'', ''isUnstarted'',
      ''getIsReady'', ''setLoop'', ''getLoop'', ''getAutoPlay'']"
  by (simp add: guarded_def prototype_def exempt_def)

lemma guarded_not_exempt: "key \<in> set (guarded proto) \<Longrightarrow> \<not> exempt key"
  by (auto simp: guarded_def)

lemma exempt_init: "exempt ''init''"
  by (simp add: exempt_def)

lemma prototype_init: "map_of prototype ''init'' = Some Init"
  by (simp add: prototype_def)

lemma init_guards:
  "guards (init opts w :: 'w yta) = guarded (prototype :: (string \<times> 'w member) list)"
  by (simp add: init_def)

lemma example_yta_fields:
  "isReady example_yta = False"
  "guards example_yta = guarded (prototype :: (string \<times> nat member) list)"
  "logEarlyCalls (options example_yta) = Undefined"
  "console example_yta = []"
  by (simp_all add: example_yta_def init_def example_options_def)

lemma example_ready_fields:
  "isReady example_ready = True"
  "videoIds example_ready = Some 0"
  "arrays example_ready = [[''a1'', ''a2'', ''a3'']]"
  "index example_ready = Finite 0"
  "guards example_ready = guarded (prototype :: (string \<times> nat member) list)"
  "player example_ready = Some example_widget"
  "world example_ready = 0"
  by (simp_all add: example_ready_def player_onReady_def triggerHandlers_def addAudio_def
      new_array_def example_yta_def init_def example_options_def parseVideoId_def
      line_terminator_def)

lemma mod_js_pos: "0 < b \<Longrightarrow> mod_js (Finite a) (Finite b) = Finite (a mod b)"
proof -
  assume b: "0 < b"
  show ?thesis
  proof (cases "0 \<le> a")
    case True
    then have "sgn a * (\<bar>a\<bar> mod \<bar>b\<bar>) = a mod b"
      using b by (cases "a = 0") (simp_all add: sgn_if)
    moreover have "0 < a mod b + b"
      using pos_mod_sign [of b a] b by linarith
    ultimately show ?thesis using b by (simp add: mod_js_def sgn_if)
  next
    case False
    then have neg: "a < 0" by simp
    define r where "r = (- a) mod b"
    have r: "0 \<le> r" "r < b" using b by (simp_all add: r_def)
    have 1: "sgn a * (\<bar>a\<bar> mod \<bar>b\<bar>) = - r" using neg b by (simp add: r_def sgn_if)
    have 2: "0 < - r + b" using r by simp
    have "(- r + b) mod b = (- r) mod b" by simp
    also have "\<dots> = (- (- a)) mod b" unfolding r_def by (simp add: mod_minus_eq)
    finally have 3: "(- r + b) mod b = a mod b" by simp
    show ?thesis using b 1 2 3 by (simp add: mod_js_def sgn_if)
  qed
qed

lemma index_loadCurrent: "index (snd (loadCurrent st)) = index st"
  by (simp add: loadCurrent_def getVideoId_def player_call_def
      split: option.splits prod.splits sum.splits)

lemma frame_getVideoIds: "frame getVideoIds"
  by (simp add: frame_def getVideoIds_def new_array_def array_at_def split: option.splits)

lemma frame_getVideoUrls: "frame getVideoUrls"
  by (simp add: frame_def getVideoUrls_def new_array_def array_at_def split: option.splits)

lemma frame_getVideoId: "frame getVideoId"
  by (simp add: frame_def getVideoId_def array_at_def split: option.splits)

lemma frame_setSources: "frame setSources"
  by (simp add: frame_def setSources_def new_array_def array_at_def
      split: option.splits arg.splits val.splits)

lemma frame_forward: "frame (forward b k)"
  by (simp add: frame_def forward_def player_call_def
      split: option.splits prod.splits sum.splits)

lemma frame_getStateName: "frame getStateName"
  by (simp add: frame_def getStateName_def player_call_def
      split: option.splits prod.splits sum.splits)

lemma frame_is_state: "frame (is_state m)"
  by (simp add: frame_def is_state_def player_call_def
      split: option.splits prod.splits sum.splits)

lemma frame_restart: "frame restart"
  by (simp add: frame_def restart_def loadCurrent_def getVideoId_def player_call_def
      array_at_def split: option.splits prod.splits sum.splits)

lemma frame_playNext: "frame playNext"
  by (simp add: frame_def playNext_def loadCurrent_def getVideoId_def player_call_def
      array_at_def split: option.splits prod.splits sum.splits)

lemma frame_playPrevious: "frame playPrevious"
  by (simp add: frame_def playPrevious_def loadCurrent_def getVideoId_def player_call_def
      array_at_def split: option.splits prod.splits sum.splits)

lemma frame_setVolume: "frame setVolume"
  by (simp add: frame_def setVolume_def player_call_def
      split: option.splits prod.splits sum.splits)

lemma frame_subscribe: "frame (subscribe n)"
  by (simp add: frame_def subscribe_def)

lemma frame_onReady: "frame onReady"
  by (simp add: frame_def onReady_def split: option.splits prod.splits)

lemma frame_YouTubeAudio: "frame YouTubeAudio"
  by (simp add: frame_def YouTubeAudio_def own_init_def)

lemma frame_accessors: "frame getIsReady" "frame setLoop" "frame getLoop" "frame getAutoPlay"
  by (simp_all add: frame_def getIsReady_def setLoop_def getLoop_def getAutoPlay_def)

lemmas frames = frame_getVideoIds frame_getVideoUrls frame_getVideoId frame_setSources
  frame_forward frame_getStateName frame_is_state frame_restart frame_playNext
  frame_playPrevious frame_setVolume frame_subscribe frame_onReady frame_YouTubeAudio
  frame_accessors

lemma frame_prototype: "map_of prototype key = Some (Method m) \<Longrightarrow> frame m"
proof -
  assume "map_of prototype key = Some (Method m)"
  then have "(key, Method m) \<in> set prototype"
    by (rule map_of_SomeD)
  then show ?thesis
    unfolding prototype_def by (auto simp: frames)
qed

subsection \<open>Calls before the widget is ready\<close>

text \<open>
  C1. Every key that \<open>init\<close> guards (a function of the prototype other than \<open>init\<close>,
  \<open>getVideoId\<close> and the \<open>on\<close>-prefixed methods; \<open>guarded_prototype\<close> lists them),
  called while the instance is not ready, throws an \<open>Error\<close> whose message names the
  key when \<open>logEarlyCalls\<close> is falsy, and otherwise appends that message to the console
  and returns \<open>undefined\<close>; nothing else of the instance changes, the world and so the
  widget included. Every such key is guarded on a new instance, which is not ready.
\<close>

theorem early_call:
  assumes "key \<in> set (guarded (prototype :: (string \<times> 'w member) list))"
    and "key \<in> set (guards st)"
    and "\<not> isReady st"
  shows "call key args (st :: 'w yta) =
           (if truthy (logEarlyCalls (options st))
            then (Inr (Value Undefined),
                  st\<lparr>console := console st
                         @ [''The '' @ key @ ''() function cannot be called yet.'']\<rparr>)
            else (Inl (Error (''The '' @ key @ ''() function cannot be called yet.'')), st))
         \<and> key \<in> set (guards (init opts w :: 'w yta))
         \<and> \<not> isReady (init opts w :: 'w yta)"
proof -
  have "key \<noteq> ''init''"
    using guarded_not_exempt [OF assms(1)] exempt_init by auto
  then have "call key args st =
           (if truthy (logEarlyCalls (options st))
            then (Inr (Value Undefined),
                  st\<lparr>console := console st
                         @ [''The '' @ key @ ''() function cannot be called yet.'']\<rparr>)
            else (Inl (Error (''The '' @ key @ ''() function cannot be called yet.'')), st))"
    using assms(2,3) by (simp add: call_def guard_def)
  moreover have "key \<in> set (guards (init opts w :: 'w yta))"
    using assms(1) by (simp add: init_guards)
  moreover have "\<not> isReady (init opts w :: 'w yta)"
    by (simp add: init_def)
  ultimately show ?thesis by blast
qed

theorem early_call_witness:
  "''play'' \<in> set (guarded (prototype :: (string \<times> nat member) list))
   \<and> ''play'' \<in> set (guards example_yta)
   \<and> \<not> isReady example_yta
   \<and> call ''play'' [] example_yta
       = (Inl (Error ''The play() function cannot be called yet.''), example_yta)
   \<and> call ''play'' [] (example_yta\<lparr>options := example_options\<lparr>logEarlyCalls := Bool True\<rparr>\<rparr>)
       = (Inr (Value Undefined),
          example_yta\<lparr>options := example_options\<lparr>logEarlyCalls := Bool True\<rparr>,
                      console := [''The play() function cannot be called yet.'']\<rparr>)"
proof -
  have k: "''play'' \<in> set (guarded (prototype :: (string \<times> nat member) list))"
    by (simp add: guarded_prototype)
  have g: "''play'' \<in> set (guards example_yta)"
    by (simp add: example_yta_fields guarded_prototype)
  have r: "\<not> isReady example_yta"
    by (simp add: example_yta_fields)
  have g': "''play'' \<in> set (guards
              (example_yta\<lparr>options := example_options\<lparr>logEarlyCalls := Bool True\<rparr>\<rparr>))"
    using g by simp
  have r': "\<not> isReady (example_yta\<lparr>options := example_options\<lparr>logEarlyCalls := Bool True\<rparr>\<rparr>)"
    using r by simp
  show ?thesis
    using k g r early_call [OF k g r, of "[]"] early_call [OF k g' r', of "[]"]
    by (simp add: example_yta_fields)
qed

subsection \<open>The index wraps around\<close>

text \<open>
  C4. On a playlist of length \<open>L \<ge> 1\<close> with the index \<open>i\<close> in range, \<open>playNext\<close>
  sets the index to \<open>(i + 1) mod L\<close>, so to 0 from \<open>L - 1\<close>, and \<open>playPrevious\<close>
  sets it to \<open>(i - 1) mod L\<close>, so to \<open>L - 1\<close> from 0; the same holds for the calls
  \<^verbatim>\<open>yta.playNext()\<close> and \<^verbatim>\<open>yta.playPrevious()\<close> on a ready instance, guarded or
  not.
\<close>

theorem index_wraparound:
  assumes "videoIds st = Some a"
    and "length (array_at st a) = L"
    and "1 \<le> L"
    and "index st = Finite i"
    and "0 \<le> i"
    and "i < int L"
  shows "index (snd (playNext args st)) = Finite ((i + 1) mod int L)
       \<and> index (snd (playPrevious args st)) = Finite ((i - 1) mod int L)
       \<and> (i = int L - 1 \<longrightarrow> index (snd (playNext args st)) = Finite 0)
       \<and> (i = 0 \<longrightarrow> index (snd (playPrevious args st)) = Finite (int L - 1))
       \<and> (isReady st \<longrightarrow>
            index (snd (call ''playNext'' args st)) = Finite ((i + 1) mod int L)
          \<and> index (snd (call ''playPrevious'' args st)) = Finite ((i - 1) mod int L))"
proof -
  have L: "0 < int L" using assms(3) by simp
  have n: "index (snd (playNext args st)) = Finite ((i + 1) mod int L)"
    using assms(1,2,4) L by (simp add: playNext_def index_loadCurrent mod_js_pos)
  have p: "index (snd (playPrevious args st)) = Finite ((i - 1) mod int L)"
    using assms(1,2,4) L by (simp add: playPrevious_def index_loadCurrent mod_js_pos)
  have n0: "i = int L - 1 \<longrightarrow> index (snd (playNext args st)) = Finite 0"
    using n by simp
  have p0: "i = 0 \<longrightarrow> index (snd (playPrevious args st)) = Finite (int L - 1)"
  proof
    assume "i = 0"
    moreover have "(- 1) mod int L = int L - 1"
      using L by (simp add: zmod_minus1)
    ultimately show "index (snd (playPrevious args st)) = Finite (int L - 1)"
      using p by simp
  qed
  have c: "isReady st \<longrightarrow>
            index (snd (call ''playNext'' args st)) = Finite ((i + 1) mod int L)
          \<and> index (snd (call ''playPrevious'' args st)) = Finite ((i - 1) mod int L)"
  proof
    assume r: "isReady st"
    have "index (snd (call ''playNext'' args st)) = index (snd (playNext args st))"
      using r by (simp add: call_def guard_def call_prototype_def prototype_def playNext_def
          index_loadCurrent array_at_def split: option.splits)
    moreover have "index (snd (call ''playPrevious'' args st))
                   = index (snd (playPrevious args st))"
      using r by (simp add: call_def guard_def call_prototype_def prototype_def
          playPrevious_def index_loadCurrent array_at_def split: option.splits)
    ultimately show "index (snd (call ''playNext'' args st)) = Finite ((i + 1) mod int L)
          \<and> index (snd (call ''playPrevious'' args st)) = Finite ((i - 1) mod int L)"
      using n p by simp
  qed
  show ?thesis using n p n0 p0 c by blast
qed

theorem index_wraparound_witness:
  "videoIds example_ready = Some 0
   \<and> length (array_at example_ready 0) = 3
   \<and> index example_ready = Finite 0
   \<and> isReady example_ready
   \<and> index (snd (playNext [] example_ready)) = Finite 1
   \<and> index (snd (playPrevious [] example_ready)) = Finite 2
   \<and> index (snd (call ''playNext'' [] example_ready)) = Finite 1
   \<and> index (snd (call ''playPrevious'' [] example_ready)) = Finite 2"
proof -
  have v: "videoIds example_ready = Some 0"
    by (simp add: example_ready_fields)
  have l: "length (array_at example_ready 0) = 3"
    by (simp add: array_at_def example_ready_fields)
  have i: "index example_ready = Finite 0"
    by (simp add: example_ready_fields)
  have r: "isReady example_ready"
    by (simp add: example_ready_fields)
  show ?thesis
    using v l i r index_wraparound [OF v l _ i, of "[]"] by simp
qed

subsection \<open>Lazy unwrapping\<close>

text \<open>
  C5. On a ready instance, the first call of a guarded method \<open>key\<close> whose function on
  the prototype is \<open>m\<close> returns what \<open>m\<close> returns for the same arguments and leaves
  the state \<open>m\<close> leaves, but for the guard of \<open>key\<close>, which is removed (the other
  guards stay); the instance stays ready; and on any state without the guard of
  \<open>key\<close>, the call is \<open>m\<close> itself.
\<close>

theorem lazy_unwrapping:
  assumes ready: "isReady st"
    and guarded: "key \<in> set (guards st)"
    and real: "map_of prototype key = Some (Method m)"
  shows "call key args st =
           (case m args st of (r, st') \<Rightarrow> (r, st'\<lparr>guards := removeAll key (guards st)\<rparr>))
         \<and> key \<notin> set (guards (snd (call key args st)))
         \<and> isReady (snd (call key args st))
         \<and> (\<forall>args' st'. key \<notin> set (guards st') \<longrightarrow> call key args' st' = m args' st')"
proof -
  have key: "key \<noteq> ''init''"
    using real by (auto simp: prototype_init)
  have fr: "frame m"
    using real by (rule frame_prototype)
  have 1: "call key args st =
           (case m args st of (r, st') \<Rightarrow> (r, st'\<lparr>guards := removeAll key (guards st)\<rparr>))"
    using key ready guarded real fr
    by (simp add: call_def guard_def call_prototype_def frame_def)
  have 2: "key \<notin> set (guards (snd (call key args st)))"
    unfolding 1 by (cases "m args st") simp
  have 3: "isReady (snd (call key args st))"
  proof -
    have "isReady (snd (m args st))"
      using fr ready by (simp add: frame_def)
    then show ?thesis unfolding 1 by (cases "m args st") simp
  qed
  have 4: "\<forall>args' st'. key \<notin> set (guards st') \<longrightarrow> call key args' st' = m args' st'"
    using key real by (simp add: call_def call_prototype_def)
  show ?thesis using 1 2 3 4 by blast
qed

theorem lazy_unwrapping_witness:
  "isReady example_ready
   \<and> ''setVolume'' \<in> set (guards example_ready)
   \<and> map_of prototype ''setVolume'' = Some (Method (setVolume :: nat meth))
   \<and> call ''setVolume'' [Value (Number (Finite 30))] example_ready
       = (Inr (Value (Number (Finite 50))),
          example_ready\<lparr>world := 2, guards := removeAll ''setVolume'' (guards example_ready)\<rparr>)
   \<and> ''setVolume'' \<notin> set (guards (snd (call ''setVolume'' [Value (Number (Finite 30))] example_ready)))"
proof -
  have r: "isReady example_ready"
    by (simp add: example_ready_fields)
  have g: "''setVolume'' \<in> set (guards example_ready)"
    by (simp add: example_ready_fields guarded_prototype)
  have m: "map_of prototype ''setVolume'' = Some (Method (setVolume :: nat meth))"
    by (simp add: prototype_def)
  have v: "setVolume [Value (Number (Finite 30))] example_ready
           = (Inr (Value (Number (Finite 50))), example_ready\<lparr>world := 2\<rparr>)"
    by (simp add: setVolume_def player_call_def example_ready_fields example_widget_def
        nth_arg_def)
  show ?thesis
    using r g m lazy_unwrapping [OF r g m, of "[Value (Number (Finite 30))]"]
    by (simp add: v)
qed

subsection \<open>Arrays handed out are copies\<close>

text \<open>
  C10. On a session whose playlist is the array at address \<open>a\<close>, \<open>getVideoIds\<close> and
  \<open>getVideoUrls\<close> return a newly allocated array (its address is the next free one,
  so it is not \<open>a\<close>) holding the ids, or their URLs; \<open>setSources\<close> returns the old
  array \<open>a\<close> and makes a newly allocated one the playlist. Whatever the caller then
  writes into the returned array, the session's playlist and index are what they
  were.
\<close>

theorem defensive_copies:
  assumes v: "videoIds st = Some a"
    and a: "a < length (arrays st)"
  shows "length (arrays st) \<noteq> a
       \<and> fst (getVideoIds args st) = Inr (Value (Array (length (arrays st))))
       \<and> array_at (snd (getVideoIds args st)) (length (arrays st)) = array_at st a
       \<and> videoIds (write_array (length (arrays st)) xs (snd (getVideoIds args st))) = Some a
       \<and> array_at (write_array (length (arrays st)) xs (snd (getVideoIds args st))) a
           = array_at st a
       \<and> index (write_array (length (arrays st)) xs (snd (getVideoIds args st))) = index st
       \<and> fst (getVideoUrls args st) = Inr (Value (Array (length (arrays st))))
       \<and> array_at (snd (getVideoUrls args st)) (length (arrays st))
           = map getUrlFromVideoId (array_at st a)
       \<and> videoIds (write_array (length (arrays st)) xs (snd (getVideoUrls args st))) = Some a
       \<and> array_at (write_array (length (arrays st)) xs (snd (getVideoUrls args st))) a
           = array_at st a
       \<and> index (write_array (length (arrays st)) xs (snd (getVideoUrls args st))) = index st
       \<and> (src < length (arrays st) \<longrightarrow>
              fst (setSources [Value (Array src)] st) = Inr (Value (Array a))
            \<and> videoIds (snd (setSources [Value (Array src)] st)) = Some (length (arrays st))
            \<and> videoIds (write_array a xs (snd (setSources [Value (Array src)] st)))
                = Some (length (arrays st))
            \<and> array_at (write_array a xs (snd (setSources [Value (Array src)] st)))
                  (length (arrays st))
                = map parseVideoId (array_at st src)
            \<and> index (write_array a xs (snd (setSources [Value (Array src)] st))) = index st)"
proof -
  have new: "length (arrays st) \<noteq> a"
    using a by simp
  have ids: "fst (getVideoIds args st) = Inr (Value (Array (length (arrays st))))
       \<and> array_at (snd (getVideoIds args st)) (length (arrays st)) = array_at st a
       \<and> videoIds (write_array (length (arrays st)) xs (snd (getVideoIds args st))) = Some a
       \<and> array_at (write_array (length (arrays st)) xs (snd (getVideoIds args st))) a
           = array_at st a
       \<and> index (write_array (length (arrays st)) xs (snd (getVideoIds args st))) = index st"
    using v a
    by (simp add: getVideoIds_def new_array_def array_at_def write_array_def nth_append)
  have urls: "fst (getVideoUrls args st) = Inr (Value (Array (length (arrays st))))
       \<and> array_at (snd (getVideoUrls args st)) (length (arrays st))
           = map getUrlFromVideoId (array_at st a)
       \<and> videoIds (write_array (length (arrays st)) xs (snd (getVideoUrls args st))) = Some a
       \<and> array_at (write_array (length (arrays st)) xs (snd (getVideoUrls args st))) a
           = array_at st a
       \<and> index (write_array (length (arrays st)) xs (snd (getVideoUrls args st))) = index st"
    using v a
    by (simp add: getVideoUrls_def new_array_def array_at_def write_array_def nth_append)
  have srcs: "src < length (arrays st) \<longrightarrow>
              fst (setSources [Value (Array src)] st) = Inr (Value (Array a))
            \<and> videoIds (snd (setSources [Value (Array src)] st)) = Some (length (arrays st))
            \<and> videoIds (write_array a xs (snd (setSources [Value (Array src)] st)))
                = Some (length (arrays st))
            \<and> array_at (write_array a xs (snd (setSources [Value (Array src)] st)))
                  (length (arrays st))
                = map parseVideoId (array_at st src)
            \<and> index (write_array a xs (snd (setSources [Value (Array src)] st))) = index st"
    using v a
    by (simp add: setSources_def new_array_def array_at_def write_array_def nth_append
        nth_arg_def)
  show ?thesis using new ids urls srcs by blast
qed

theorem defensive_copies_witness:
  "videoIds example_ready = Some 0
   \<and> 0 < length (arrays example_ready)
   \<and> fst (getVideoIds [] example_ready) = Inr (Value (Array 1))
   \<and> array_at (write_array 1 [''zz''] (snd (getVideoIds [] example_ready))) 0
       = [''a1'', ''a2'', ''a3'']
   \<and> fst (getVideoUrls [] example_ready) = Inr (Value (Array 1))
   \<and> array_at (write_array 1 [''zz''] (snd (getVideoUrls [] example_ready))) 0
       = [''a1'', ''a2'', ''a3'']
   \<and> fst (setSources [Value (Array 0)] example_ready) = Inr (Value (Array 0))
   \<and> array_at (write_array 0 [''zz''] (snd (setSources [Value (Array 0)] example_ready))) 1
       = [''a1'', ''a2'', ''a3'']"
proof -
  have v: "videoIds example_ready = Some 0"
    by (simp add: example_ready_fields)
  have a: "0 < length (arrays example_ready)"
    by (simp add: example_ready_fields)
  have l: "length (arrays example_ready) = 1"
    by (simp add: example_ready_fields)
  have c: "array_at example_ready 0 = [''a1'', ''a2'', ''a3'']"
    by (simp add: array_at_def example_ready_fields)
  show ?thesis
    using v a defensive_copies [OF v a, of "[]" "[''zz'']" 0]
    by (simp add: l c parseVideoId_def)
qed

subsection \<open>The index after the playlist is replaced\<close>

lemma call_ready:
  assumes ready: "isReady st"
    and real: "map_of prototype key = Some (Method m)"
  shows "call key args st =
           (case m args st of (r, st') \<Rightarrow> (r, st'\<lparr>guards := removeAll key (guards st)\<rparr>))"
proof -
  have key: "key \<noteq> ''init''"
    using real by (auto simp: prototype_init)
  have fr: "frame m"
    using real by (rule frame_prototype)
  show ?thesis
  proof (cases "key \<in> set (guards st)")
    case True
    then show ?thesis
      using key ready real fr by (simp add: call_def guard_def call_prototype_def frame_def)
  next
    case False
    have "m args st = m args (st\<lparr>guards := guards st\<rparr>)" by simp
    also have "\<dots> = (case m args st of (r, st') \<Rightarrow> (r, st'\<lparr>guards := guards st\<rparr>))"
      using fr unfolding frame_def by blast
    finally have "m args st = (case m args st of (r, st') \<Rightarrow> (r, st'\<lparr>guards := guards st\<rparr>))" .
    moreover have "removeAll key (guards st) = guards st"
      using False by simp
    ultimately show ?thesis
      using key real False by (simp add: call_def call_prototype_def)
  qed
qed

lemma prototype_playNext: "map_of prototype ''playNext'' = Some (Method playNext)"
  by (simp add: prototype_def)

lemma prototype_setSources: "map_of prototype ''setSources'' = Some (Method setSources)"
  by (simp add: prototype_def)

lemma prototype_getVideoId: "map_of prototype ''getVideoId'' = Some (Method getVideoId)"
  by (simp add: prototype_def)

lemma playNext_fields:
  assumes "videoIds st = Some a"
  shows "videoIds (snd (playNext args st)) = Some a"
    and "arrays (snd (playNext args st)) = arrays st"
    and "isReady (snd (playNext args st)) = isReady st"
    and "index (snd (playNext args st))
         = mod_js (add_js (index st) (Finite 1)) (Finite (int (length (array_at st a))))"
  using assms
  by (simp_all add: playNext_def loadCurrent_def getVideoId_def player_call_def
      split: option.splits prod.splits sum.splits)

lemma call_fields:
  assumes "isReady st" and "map_of prototype key = Some (Method m)"
  shows "videoIds (snd (call key args st)) = videoIds (snd (m args st))"
    and "arrays (snd (call key args st)) = arrays (snd (m args st))"
    and "isReady (snd (call key args st)) = isReady (snd (m args st))"
    and "index (snd (call key args st)) = index (snd (m args st))"
    and "fst (call key args st) = fst (m args st)"
  unfolding call_ready [OF assms] by (cases "m args st"; simp)+

lemma setSources_index: "index (snd (setSources args st)) = index st"
  by (simp add: setSources_def new_array_def split: arg.splits val.splits)

lemma advanced_fields:
  "videoIds advanced = Some 0"
  "arrays advanced = [[''a1'', ''a2'', ''a3'']]"
  "isReady advanced"
  "index advanced = Finite 2"
proof -
  let ?s1 = "snd (call ''playNext'' [] example_ready)"
  have r0: "isReady example_ready" by (simp add: example_ready_fields)
  have v0: "videoIds example_ready = Some 0" by (simp add: example_ready_fields)
  have v1: "videoIds ?s1 = Some 0"
    by (simp add: call_fields [OF r0 prototype_playNext] playNext_fields [OF v0])
  have a1: "arrays ?s1 = [[''a1'', ''a2'', ''a3'']]"
    by (simp add: call_fields [OF r0 prototype_playNext] playNext_fields [OF v0]
        example_ready_fields)
  have r1: "isReady ?s1"
    by (simp add: call_fields [OF r0 prototype_playNext] playNext_fields [OF v0] r0)
  have i1: "index ?s1 = Finite 1"
    by (simp add: call_fields [OF r0 prototype_playNext] playNext_fields [OF v0]
        example_ready_fields array_at_def mod_js_def)
  show "videoIds advanced = Some 0"
    by (simp add: advanced_def call_fields [OF r1 prototype_playNext] playNext_fields [OF v1])
  show "arrays advanced = [[''a1'', ''a2'', ''a3'']]"
    by (simp add: advanced_def call_fields [OF r1 prototype_playNext] playNext_fields [OF v1] a1)
  show "isReady advanced"
    by (simp add: advanced_def call_fields [OF r1 prototype_playNext] playNext_fields [OF v1] r1)
  show "index advanced = Finite 2"
    by (simp add: advanced_def call_fields [OF r1 prototype_playNext] playNext_fields [OF v1]
        a1 i1 array_at_def mod_js_def)
qed

text \<open>
  C7. \<open>setSources\<close> replaces the playlist and leaves the index as it is
  (\<open>setSources_index\<close>). After two calls of \<open>playNext\<close> on the three entries the
  index is 2; replacing the playlist by the one entry \<^verbatim>\<open>'x'\<close> leaves it at 2, which
  is no index of the new playlist, and \<open>getVideoId\<close> returns \<open>undefined\<close>.
\<close>

theorem stale_index:
  "index shortened = Finite 2
   \<and> videoIds shortened = Some 2
   \<and> array_at shortened 2 = [''x'']
   \<and> fst (call ''getVideoId'' [] shortened) = Inr (Value Undefined)"
proof -
  let ?s = "snd (new_array [''x''] advanced)"
  have r: "isReady ?s" by (simp add: new_array_def advanced_fields)
  have s: "setSources [Value (Array (fst (new_array [''x''] advanced)))] ?s
           = (Inr (Value (Array 0)),
              ?s\<lparr>arrays := [[''a1'', ''a2'', ''a3''], [''x''], [''x'']], videoIds := Some 2\<rparr>)"
    by (simp add: setSources_def new_array_def nth_arg_def array_at_def advanced_fields
        parseVideoId_def)
  have i: "index shortened = Finite 2"
    unfolding shortened_def call_fields [OF r prototype_setSources] s
    by (simp add: new_array_def advanced_fields)
  have v: "videoIds shortened = Some 2"
    unfolding shortened_def call_fields [OF r prototype_setSources] s by simp
  have a: "arrays shortened = [[''a1'', ''a2'', ''a3''], [''x''], [''x'']]"
    unfolding shortened_def call_fields [OF r prototype_setSources] s by simp
  have rs: "isReady shortened"
    unfolding shortened_def call_fields [OF r prototype_setSources] s
    by (simp add: new_array_def advanced_fields)
  have g: "fst (call ''getVideoId'' [] shortened) = Inr (Value Undefined)"
    by (simp add: call_fields [OF rs prototype_getVideoId] getVideoId_def v a i array_at_def)
  show ?thesis using i v a g by (simp add: array_at_def)
qed

section \<open>Properties of parseVideoId\<close>

lemma id_char_not_special:
  "id_char c \<Longrightarrow>
     c \<noteq> CHR ''?'' \<and> c \<noteq> CHR ''&'' \<and> c \<noteq> CHR '':'' \<and> c \<noteq> CHR ''/'' \<and> c \<noteq> CHR ''=''"
  by (auto simp: id_char_def)

lemma match_v_ids: "list_all id_char s \<Longrightarrow> match_v s = None"
  by (induction s) (auto dest: id_char_not_special)

lemma match_short_ids: "list_all id_char s \<Longrightarrow> match_short s = None"
  by (induction s) (auto dest: id_char_not_special)

lemma parseVideoId_ids: "list_all id_char s \<Longrightarrow> parseVideoId s = s"
  by (simp add: parseVideoId_def match_v_ids match_short_ids)

lemma take_mem: "take n s = p \<Longrightarrow> c \<in> set p \<Longrightarrow> c \<in> set s"
  by (metis in_set_takeD)

lemma strip_scheme_ids: "list_all id_char s \<Longrightarrow> strip_scheme s = None"
proof -
  assume ids: "list_all id_char s"
  have colon: "CHR '':'' \<notin> set s"
    using ids id_char_not_special by (auto simp: list_all_iff)
  have "take 8 s \<noteq> ''https://''"
    using colon take_mem [of 8 s "''https://''" "CHR '':''"] by auto
  moreover have "take 7 s \<noteq> ''http://''"
    using colon take_mem [of 7 s "''http://''" "CHR '':''"] by auto
  ultimately show ?thesis by (simp add: strip_scheme_def)
qed

lemma replace_runs_id: "replace_runs s = s"
  by (induction s rule: replace_runs.induct) (simp_all del: takeWhile.simps dropWhile.simps)

lemma parseVideoId_es6_ids: "list_all id_char s \<Longrightarrow> parseVideoId_es6 s = s"
  by (simp add: parseVideoId_es6_def match_url_def strip_scheme_ids replace_runs_id)

lemma match_watch_bare: "match_watch s = Some g \<Longrightarrow> bare g"
  by (induction s) (auto simp: bare_def split: if_splits)

lemma match_url_bare: "match_url s = Some g \<Longrightarrow> bare g"
  by (auto simp: match_url_def bare_def list_all_iff
      split: option.splits if_splits list.splits
      dest: match_watch_bare set_takeWhileD)

lemma parseVideoId_es6_idem: "parseVideoId_es6 (parseVideoId_es6 s) = parseVideoId_es6 s"
proof (cases "match_url s")
  case None
  then show ?thesis by (simp add: parseVideoId_es6_def replace_runs_id)
next
  case (Some g)
  then have "bare g" by (rule match_url_bare)
  then show ?thesis
    using Some by (simp add: parseVideoId_es6_def [of s] parseVideoId_es6_ids bare_def)
qed

subsection \<open>Strings without a link\<close>

lemma no_sub_tl: "\<not> sublist xs (y # ys) \<Longrightarrow> \<not> sublist xs ys"
  by (simp add: sublist_Cons_right)

lemma take2_v: "take 2 cs = ''v='' \<Longrightarrow> \<exists>r. cs = ''v='' @ r"
  by (metis append_take_drop_id)

lemma match_v_none:
  "\<not> sublist ''?v='' s \<Longrightarrow> \<not> sublist ''&v='' s \<Longrightarrow> match_v s = None"
proof (induction s)
  case Nil
  show ?case by simp
next
  case (Cons c cs)
  have t: "\<not> sublist ''?v='' cs" "\<not> sublist ''&v='' cs"
    using Cons.prems by (simp_all add: sublist_Cons_right)
  have "\<not> ((c = CHR ''?'' \<or> c = CHR ''&'') \<and> take 2 cs = ''v='')"
  proof
    assume a: "(c = CHR ''?'' \<or> c = CHR ''&'') \<and> take 2 cs = ''v=''"
    then obtain r where "cs = ''v='' @ r" using take2_v by blast
    then have "prefix ''?v='' (c # cs) \<or> prefix ''&v='' (c # cs)"
      using a by auto
    then show False using Cons.prems by (auto simp: sublist_Cons_right)
  qed
  then show ?case using Cons.IH [OF t] by auto
qed

lemma take8: "take 8 s = ''://youtu'' \<Longrightarrow> prefix ''://youtu'' s"
  by (metis take_is_prefix)

lemma match_short_none:
  "\<not> sublist ''://youtu'' s \<Longrightarrow> match_short s = None"
proof (induction s)
  case Nil
  show ?case by simp
next
  case (Cons c cs)
  have t: "\<not> sublist ''://youtu'' cs"
    using Cons.prems by (simp add: sublist_Cons_right)
  have "take 8 (c # cs) \<noteq> ''://youtu''"
    using Cons.prems take8 [of "c # cs"] by (auto simp: sublist_Cons_right)
  then show ?case using Cons.IH [OF t] by auto
qed

subsection \<open>Links in the prototype-based variant\<close>

lemma match_v_skip:
  assumes p: "\<not> sublist ''?v='' p" "\<not> sublist ''&v='' p"
    and c: "c = CHR ''?'' \<or> c = CHR ''&''"
  shows "match_v (p @ c # ''v='' @ rest) = match_v (c # ''v='' @ rest)"
  using p
proof (induction p)
  case Nil
  show ?case by simp
next
  case (Cons x xs)
  have t: "\<not> sublist ''?v='' xs" "\<not> sublist ''&v='' xs"
    using Cons.prems by (simp_all add: sublist_Cons_right)
  have "\<not> ((x = CHR ''?'' \<or> x = CHR ''&'') \<and> take 2 (xs @ c # ''v='' @ rest) = ''v='')"
  proof
    assume a: "(x = CHR ''?'' \<or> x = CHR ''&'') \<and> take 2 (xs @ c # ''v='' @ rest) = ''v=''"
    show False
    proof (cases xs)
      case Nil
      then show False using a c by auto
    next
      case (Cons y ys)
      note xs = Cons
      show False
      proof (cases ys)
        case Nil
        then show False using a c xs by auto
      next
        case (Cons z zs)
        then have "prefix ''?v='' (x # xs) \<or> prefix ''&v='' (x # xs)"
          using a xs by auto
        then show False using Cons.prems \<open>\<not> sublist ''?v='' (x # xs)\<close>
            \<open>\<not> sublist ''&v='' (x # xs)\<close>
          by (auto simp: sublist_Cons_right)
      qed
    qed
  qed
  then show ?case using Cons.IH [OF t] by auto
qed

lemma takeWhile_run:
  "list_all P i \<Longrightarrow> r = [] \<or> \<not> P (hd r) \<Longrightarrow> takeWhile P (i @ r) = i"
  by (induction i) (auto simp: takeWhile_eq_Nil_iff neq_Nil_conv)

lemma bare_not_amp: "bare i \<Longrightarrow> list_all (\<lambda>d. d \<noteq> CHR ''&'') i"
  using id_char_not_special by (auto simp: bare_def list_all_iff)

lemma bare_not_slash: "bare i \<Longrightarrow> list_all (\<lambda>d. d \<noteq> CHR ''/'' \<and> d \<noteq> CHR ''?'') i"
  using id_char_not_special by (auto simp: bare_def list_all_iff)

lemma bare_hd: "bare i \<Longrightarrow> \<exists>d ds. i = d # ds \<and> id_char d"
  by (cases i) (auto simp: bare_def)

lemma match_v_here:
  assumes b: "bare i" and c: "c = CHR ''?'' \<or> c = CHR ''&''"
    and r: "r = [] \<or> hd r = CHR ''&''"
  shows "match_v (c # ''v='' @ i @ r) = Some i"
proof -
  obtain d ds where i: "i = d # ds" and d: "id_char d" using bare_hd [OF b] by blast
  have "takeWhile (\<lambda>d. d \<noteq> CHR ''&'') (i @ r) = i"
    using bare_not_amp [OF b] r by (intro takeWhile_run) auto
  moreover have "d \<noteq> CHR ''&''" using d id_char_not_special by blast
  ultimately show ?thesis using c i by auto
qed

lemma parseVideoId_watch_form:
  assumes "bare i" "c = CHR ''?'' \<or> c = CHR ''&''" "r = [] \<or> hd r = CHR ''&''"
    "\<not> sublist ''?v='' p" "\<not> sublist ''&v='' p"
  shows "parseVideoId (p @ c # ''v='' @ i @ r) = i"
  using match_v_skip [OF assms(4,5,2), of "i @ r"] match_v_here [OF assms(1,2,3)]
  by (simp add: parseVideoId_def)

lemma match_v_no_marks:
  "list_all (\<lambda>d. d \<noteq> CHR ''?'' \<and> d \<noteq> CHR ''&'') a \<Longrightarrow> match_v (a @ b) = match_v b"
  by (induction a) auto

lemma bare_no_marks: "bare i \<Longrightarrow> list_all (\<lambda>d. d \<noteq> CHR ''?'' \<and> d \<noteq> CHR ''&'') i"
  using id_char_not_special by (auto simp: bare_def list_all_iff)

lemma parseVideoId_short_form:
  assumes b: "bare i" and s: "scheme = ''http'' \<or> scheme = ''https''"
    and r: "r = [] \<or> hd r = CHR ''/'' \<or> hd r = CHR ''?''"
    and n: "\<not> sublist ''?v='' r" "\<not> sublist ''&v='' r"
  shows "parseVideoId (scheme @ ''://youtu.be/'' @ i @ r) = i"
proof -
  obtain d ds where i: "i = d # ds" and d: "id_char d" using bare_hd [OF b] by blast
  have d': "d \<noteq> CHR ''/''" "d \<noteq> CHR ''?''" using d id_char_not_special by blast+
  have "match_v (i @ r) = None"
    using match_v_no_marks [OF bare_no_marks [OF b], of r] match_v_none [OF n] by simp
  then have v: "match_v (scheme @ ''://youtu.be/'' @ i @ r) = None"
    using s by auto
  have t: "takeWhile (\<lambda>d. d \<noteq> CHR ''/'' \<and> d \<noteq> CHR ''?'') (i @ r) = i"
    using bare_not_slash [OF b] r by (intro takeWhile_run) auto
  have "match_short (scheme @ ''://youtu.be/'' @ i @ r)
          = Some (takeWhile (\<lambda>d. d \<noteq> CHR ''/'' \<and> d \<noteq> CHR ''?'') (i @ r))"
    using s d' unfolding i by (auto simp: line_terminator_def)
  then show ?thesis using v t by (simp add: parseVideoId_def)
qed

subsection \<open>Links in the class-based variant\<close>

lemma match_watch_end:
  assumes b: "bare i" and c: "c = CHR ''?'' \<or> c = CHR ''&''"
  shows "match_watch (p @ c # ''v='' @ i) = Some i"
proof (induction p)
  case Nil
  show ?case using b c by (auto simp: bare_def)
next
  case (Cons x xs)
  have nc: "\<not> id_char c" using c by (auto simp: id_char_def)
  have "\<not> (take 2 (xs @ c # ''v='' @ i) = ''v=''
           \<and> list_all id_char (drop 2 (xs @ c # ''v='' @ i)))"
  proof
    assume a: "take 2 (xs @ c # ''v='' @ i) = ''v=''
           \<and> list_all id_char (drop 2 (xs @ c # ''v='' @ i))"
    show False
    proof (cases xs)
      case Nil
      then show False using a c by auto
    next
      case (Cons y ys)
      note xs = Cons
      show False
      proof (cases ys)
        case Nil
        then show False using a c xs by auto
      next
        case (Cons z zs)
        then show False using a xs nc by auto
      qed
    qed
  qed
  then show ?case using Cons.IH by auto
qed

lemma take9:
  assumes c: "c = CHR ''?'' \<or> c = CHR ''&''" and m: "\<not> prefix ''youtu.be/'' m"
  shows "take 9 (m @ c # rest) \<noteq> ''youtu.be/''"
proof
  assume a: "take 9 (m @ c # rest) = ''youtu.be/''"
  show False
  proof (cases "9 \<le> length m")
    case True
    then have "take 9 m = ''youtu.be/''" using a by simp
    then have "prefix ''youtu.be/'' m" by (metis take_is_prefix)
    then show False using m by simp
  next
    case False
    then obtain k where k: "9 - length m = Suc k" by (cases "9 - length m") auto
    have "take 9 (m @ c # rest) = take 9 m @ c # take k rest"
      by (simp add: k)
    then have "c \<in> set (take 9 (m @ c # rest))" by simp
    then show False using c unfolding a by auto
  qed
qed

lemma match_url_watch:
  "strip_scheme s = Some rest \<Longrightarrow> take 9 rest \<noteq> ''youtu.be/'' \<Longrightarrow>
     match_url s = (case rest of [] \<Rightarrow> None | x # xs \<Rightarrow> match_watch xs)"
  by (simp add: match_url_def)

lemma parseVideoId_es6_watch_form:
  assumes b: "bare i" and s: "scheme = ''http'' \<or> scheme = ''https''"
    and c: "c = CHR ''?'' \<or> c = CHR ''&''"
    and m: "m \<noteq> []" "\<not> prefix ''youtu.be/'' m"
  shows "parseVideoId_es6 (scheme @ ''://'' @ m @ c # ''v='' @ i) = i"
proof -
  obtain x xs where x: "m = x # xs" using m(1) by (cases m) auto
  have st: "strip_scheme (scheme @ ''://'' @ m @ c # ''v='' @ i) = Some (m @ c # ''v='' @ i)"
    using s by (auto simp: strip_scheme_def)
  have t: "take 9 (m @ c # ''v='' @ i) \<noteq> ''youtu.be/''"
    by (rule take9 [OF c m(2)])
  have w: "match_watch (xs @ c # ''v='' @ i) = Some i"
    by (rule match_watch_end [OF b c])
  have "match_url (scheme @ ''://'' @ m @ c # ''v='' @ i) = Some i"
    using match_url_watch [OF st t] w by (simp add: x)
  then show ?thesis by (simp add: parseVideoId_es6_def)
qed

lemma parseVideoId_es6_short_form:
  assumes b: "bare i" and s: "scheme = ''http'' \<or> scheme = ''https''"
    and r: "r = [] \<or> \<not> id_char (hd r)"
  shows "parseVideoId_es6 (scheme @ ''://youtu.be/'' @ i @ r) = i"
proof -
  obtain d ds where i: "i = d # ds" and d: "id_char d" using bare_hd [OF b] by blast
  have st: "strip_scheme (scheme @ ''://youtu.be/'' @ i @ r) = Some (''youtu.be/'' @ i @ r)"
    using s by (auto simp: strip_scheme_def)
  have t: "takeWhile id_char (i @ r) = i"
    using b r by (intro takeWhile_run) (auto simp: bare_def)
  have "match_url (scheme @ ''://youtu.be/'' @ i @ r) = Some (takeWhile id_char (i @ r))"
    unfolding match_url_def st using d by (simp add: i)
  then show ?thesis using t by (simp add: parseVideoId_es6_def)
qed

lemma match_watch_marker:
  "match_watch s = Some g \<Longrightarrow> sublist ''?v='' s \<or> sublist ''&v='' s"
proof (induction s)
  case Nil
  then show ?case by simp
next
  case (Cons c cs)
  show ?case
  proof (cases "(c = CHR ''?'' \<or> c = CHR ''&'') \<and> take 2 cs = ''v=''")
    case True
    then obtain r where "cs = ''v='' @ r" using take2_v by blast
    then have "prefix ''?v='' (c # cs) \<or> prefix ''&v='' (c # cs)" using True by auto
    then show ?thesis by (auto simp: sublist_Cons_right)
  next
    case False
    then have "match_watch cs = Some g" using Cons.prems by (auto split: if_splits)
    then show ?thesis using Cons.IH by (auto simp: sublist_Cons_right)
  qed
qed

lemma strip_scheme_form:
  assumes "strip_scheme s = Some rest"
  shows "s = ''https://'' @ rest \<or> s = ''http://'' @ rest"
proof (cases "take 8 s = ''https://''")
  case True
  then have "rest = drop 8 s" using assms by (simp add: strip_scheme_def)
  then show ?thesis using True append_take_drop_id [of 8 s] by simp
next
  case False
  then have 7: "take 7 s = ''http://''" and "rest = drop 7 s"
    using assms by (simp_all add: strip_scheme_def split: if_splits)
  then show ?thesis using append_take_drop_id [of 7 s] by simp
qed

lemma match_url_none:
  assumes "\<not> sublist ''?v='' s" "\<not> sublist ''&v='' s" "\<not> sublist ''://youtu'' s"
  shows "match_url s = None"
proof (cases "strip_scheme s")
  case None
  then show ?thesis by (simp add: match_url_def)
next
  case (Some rest)
  then have s: "s = ''https://'' @ rest \<or> s = ''http://'' @ rest"
    by (rule strip_scheme_form)
  have y: "take 9 rest \<noteq> ''youtu.be/''"
  proof
    assume "take 9 rest = ''youtu.be/''"
    then obtain q where "rest = ''youtu.be/'' @ q" by (metis append_take_drop_id)
    then have "s = ''https'' @ ''://youtu'' @ (''.be/'' @ q) \<or> s = ''http'' @ ''://youtu'' @ (''.be/'' @ q)"
      using s by auto
    then have "sublist ''://youtu'' s" unfolding sublist_def by blast
    then show False using assms(3) by simp
  qed
  have w: "match_watch (tl rest) = None"
  proof (rule ccontr)
    assume "match_watch (tl rest) \<noteq> None"
    then obtain g where "match_watch (tl rest) = Some g" by auto
    then have "sublist ''?v='' (tl rest) \<or> sublist ''&v='' (tl rest)"
      by (rule match_watch_marker)
    moreover have "sublist (tl rest) s"
    proof -
      have "sublist (tl rest) rest" by (rule sublist_tl)
      moreover have "sublist rest s"
        using s sublist_append_leftI [of rest "''https://''"]
          sublist_append_leftI [of rest "''http://''"] by metis
      ultimately show ?thesis by (rule sublist_order.order.trans)
    qed
    ultimately show False
      using assms(1,2) sublist_order.order.trans [of _ "tl rest" s] by blast
  qed
  show ?thesis
    using match_url_watch [OF Some y] w by (cases rest) simp_all
qed

lemma match_v_shorter: "match_v s = Some g \<Longrightarrow> length g < length s"
proof (induction s)
  case Nil
  then show ?case by simp
next
  case (Cons c cs)
  show ?case
  proof (cases "match_v cs = Some g")
    case True
    then show ?thesis using Cons.IH by simp
  next
    case False
    then have "g = takeWhile (\<lambda>d. d \<noteq> CHR ''&'') (drop 2 cs)"
      using Cons.prems by (auto split: if_splits)
    then have "length g \<le> length (drop 2 cs)" by (simp only: length_takeWhile_le)
    then show ?thesis by simp
  qed
qed

lemma match_short_shorter: "match_short s = Some g \<Longrightarrow> length g < length s"
proof (induction s)
  case Nil
  then show ?case by simp
next
  case (Cons c cs)
  show ?case
  proof (cases "match_short cs = Some g")
    case True
    then show ?thesis using Cons.IH by simp
  next
    case False
    then have "g = takeWhile (\<lambda>d. d \<noteq> CHR ''/'' \<and> d \<noteq> CHR ''?'') (drop 12 (c # cs))"
      using Cons.prems by (auto split: if_splits simp del: drop_Suc_Cons take_Suc_Cons)
    then have "length g \<le> length (drop 12 (c # cs))" by (simp only: length_takeWhile_le)
    then show ?thesis by simp
  qed
qed

lemma parseVideoId_fixed:
  "(parseVideoId t = t) = (match_v t = None \<and> match_short t = None)"
  using match_v_shorter [of t] match_short_shorter [of t]
  by (auto simp: parseVideoId_def split: option.splits)

subsection \<open>The laws of parsing\<close>

text \<open>
  C9 as the code has it. A bare identifier is returned unchanged by both functions.
  The class-based \<open>parseVideoId_es6\<close> is idempotent on every string; for the
  prototype-based \<open>parseVideoId\<close>, parsing twice gives what parsing once gives exactly
  when the first result is not itself matched by one of the two patterns. A link with
  the identifier \<open>i\<close> parses to \<open>i\<close>: for \<open>parseVideoId\<close>, any text without
  \<^verbatim>\<open>?v=\<close> and \<^verbatim>\<open>&v=\<close>, then one of the two, then \<open>i\<close>, then the end of the string
  or further parameters after \<^verbatim>\<open>&\<close>; for \<open>parseVideoId_es6\<close>, the scheme, a non-empty
  text that does not start with \<^verbatim>\<open>youtu.be/\<close>, then \<^verbatim>\<open>?v=\<close> or \<^verbatim>\<open>&v=\<close>, then \<open>i\<close> at
  the end of the string; and for both, the scheme, \<^verbatim>\<open>://youtu.be/\<close>, then \<open>i\<close>, then the
  end of the string or a tail that starts with \<^verbatim>\<open>/\<close> or \<^verbatim>\<open>?\<close> (for \<open>parseVideoId\<close> a
  tail without \<^verbatim>\<open>?v=\<close> and \<^verbatim>\<open>&v=\<close>, which the first pattern would take). A string
  that holds none of \<^verbatim>\<open>?v=\<close>, \<^verbatim>\<open>&v=\<close> and \<^verbatim>\<open>://youtu\<close> is returned unchanged by
  both.
\<close>

theorem parseVideoId_laws:
  "(bare s \<longrightarrow> parseVideoId s = s \<and> parseVideoId_es6 s = s)
   \<and> parseVideoId_es6 (parseVideoId_es6 t) = parseVideoId_es6 t
   \<and> ((parseVideoId (parseVideoId t) = parseVideoId t)
        = (match_v (parseVideoId t) = None \<and> match_short (parseVideoId t) = None))
   \<and> (bare i \<and> (c = CHR ''?'' \<or> c = CHR ''&'') \<and> (scheme = ''http'' \<or> scheme = ''https'') \<longrightarrow>
        (\<not> sublist ''?v='' p \<and> \<not> sublist ''&v='' p \<and> (r = [] \<or> hd r = CHR ''&'') \<longrightarrow>
           parseVideoId (p @ c # ''v='' @ i @ r) = i)
      \<and> (m \<noteq> [] \<and> \<not> prefix ''youtu.be/'' m \<longrightarrow>
           parseVideoId_es6 (scheme @ ''://'' @ m @ c # ''v='' @ i) = i)
      \<and> (q = [] \<or> hd q = CHR ''/'' \<or> hd q = CHR ''?'' \<longrightarrow>
           parseVideoId_es6 (scheme @ ''://youtu.be/'' @ i @ q) = i
         \<and> (\<not> sublist ''?v='' q \<and> \<not> sublist ''&v='' q \<longrightarrow>
              parseVideoId (scheme @ ''://youtu.be/'' @ i @ q) = i)))
   \<and> (\<not> sublist ''?v='' u \<and> \<not> sublist ''&v='' u \<and> \<not> sublist ''://youtu'' u \<longrightarrow>
        parseVideoId u = u \<and> parseVideoId_es6 u = u)"
proof -
  have 1: "bare s \<longrightarrow> parseVideoId s = s \<and> parseVideoId_es6 s = s"
    by (simp add: bare_def parseVideoId_ids parseVideoId_es6_ids)
  have 2: "parseVideoId_es6 (parseVideoId_es6 t) = parseVideoId_es6 t"
    by (rule parseVideoId_es6_idem)
  have 3: "(parseVideoId (parseVideoId t) = parseVideoId t)
        = (match_v (parseVideoId t) = None \<and> match_short (parseVideoId t) = None)"
    by (rule parseVideoId_fixed)
  have 4: "bare i \<and> (c = CHR ''?'' \<or> c = CHR ''&'') \<and> (scheme = ''http'' \<or> scheme = ''https'') \<longrightarrow>
        (\<not> sublist ''?v='' p \<and> \<not> sublist ''&v='' p \<and> (r = [] \<or> hd r = CHR ''&'') \<longrightarrow>
           parseVideoId (p @ c # ''v='' @ i @ r) = i)
      \<and> (m \<noteq> [] \<and> \<not> prefix ''youtu.be/'' m \<longrightarrow>
           parseVideoId_es6 (scheme @ ''://'' @ m @ c # ''v='' @ i) = i)
      \<and> (q = [] \<or> hd q = CHR ''/'' \<or> hd q = CHR ''?'' \<longrightarrow>
           parseVideoId_es6 (scheme @ ''://youtu.be/'' @ i @ q) = i
         \<and> (\<not> sublist ''?v='' q \<and> \<not> sublist ''&v='' q \<longrightarrow>
              parseVideoId (scheme @ ''://youtu.be/'' @ i @ q) = i))"
  proof (intro impI conjI)
    assume a: "bare i \<and> (c = CHR ''?'' \<or> c = CHR ''&'') \<and> (scheme = ''http'' \<or> scheme = ''https'')"
    {
      assume "\<not> sublist ''?v='' p \<and> \<not> sublist ''&v='' p \<and> (r = [] \<or> hd r = CHR ''&'')"
      then show "parseVideoId (p @ c # ''v='' @ i @ r) = i"
        using a parseVideoId_watch_form [of i c r p] by blast
    }
    {
      assume "m \<noteq> [] \<and> \<not> prefix ''youtu.be/'' m"
      then show "parseVideoId_es6 (scheme @ ''://'' @ m @ c # ''v='' @ i) = i"
        using a parseVideoId_es6_watch_form [of i scheme c m] by blast
    }
    {
      assume q: "q = [] \<or> hd q = CHR ''/'' \<or> hd q = CHR ''?''"
      then have "q = [] \<or> \<not> id_char (hd q)" by (auto simp: id_char_def)
      then show "parseVideoId_es6 (scheme @ ''://youtu.be/'' @ i @ q) = i"
        using a parseVideoId_es6_short_form [of i scheme q] by blast
      assume "\<not> sublist ''?v='' q \<and> \<not> sublist ''&v='' q"
      then show "parseVideoId (scheme @ ''://youtu.be/'' @ i @ q) = i"
        using a q parseVideoId_short_form [of i scheme q] by blast
    }
  qed
  have 5: "\<not> sublist ''?v='' u \<and> \<not> sublist ''&v='' u \<and> \<not> sublist ''://youtu'' u \<longrightarrow>
        parseVideoId u = u \<and> parseVideoId_es6 u = u"
    by (simp add: parseVideoId_def parseVideoId_es6_def match_v_none match_short_none
        match_url_none replace_runs_id)
  show ?thesis using 1 2 3 4 5 by blast
qed

theorem parseVideoId_laws_witness:
  "bare ''abc_-9''
   \<and> parseVideoId ''abc_-9'' = ''abc_-9'' \<and> parseVideoId_es6 ''abc_-9'' = ''abc_-9''
   \<and> parseVideoId_es6 (parseVideoId_es6 ''https://youtu.be/abc_-9?t=1'')
       = parseVideoId_es6 ''https://youtu.be/abc_-9?t=1''
   \<and> parseVideoId (parseVideoId ''https://youtu.be/abc_-9?t=1'')
       = parseVideoId ''https://youtu.be/abc_-9?t=1''
   \<and> \<not> sublist ''?v='' ''https://www.youtube.com/watch''
   \<and> \<not> sublist ''&v='' ''https://www.youtube.com/watch''
   \<and> parseVideoId ''https://www.youtube.com/watch?v=abc_-9&t=10'' = ''abc_-9''
   \<and> \<not> prefix ''youtu.be/'' ''www.youtube.com/watch''
   \<and> parseVideoId_es6 ''https://www.youtube.com/watch?v=abc_-9'' = ''abc_-9''
   \<and> \<not> sublist ''?v='' ''?t=1'' \<and> \<not> sublist ''&v='' ''?t=1''
   \<and> parseVideoId_es6 ''https://youtu.be/abc_-9?t=1'' = ''abc_-9''
   \<and> parseVideoId ''https://youtu.be/abc_-9?t=1'' = ''abc_-9''
   \<and> \<not> sublist ''?v='' ''not a link'' \<and> \<not> sublist ''&v='' ''not a link''
   \<and> \<not> sublist ''://youtu'' ''not a link''
   \<and> parseVideoId ''not a link'' = ''not a link''
   \<and> parseVideoId_es6 ''not a link'' = ''not a link''"
proof -
  have b: "bare ''abc_-9''"
    by (simp add: bare_def id_char_def)
  have n: "\<not> sublist ''?v='' ''https://www.youtube.com/watch''"
    "\<not> sublist ''&v='' ''https://www.youtube.com/watch''"
    "\<not> prefix ''youtu.be/'' ''www.youtube.com/watch''"
    "\<not> sublist ''?v='' ''?t=1''" "\<not> sublist ''&v='' ''?t=1''"
    "\<not> sublist ''?v='' ''not a link''" "\<not> sublist ''&v='' ''not a link''"
    "\<not> sublist ''://youtu'' ''not a link''"
    by (simp_all add: sublist_Cons_right)
  have f: "match_v ''abc_-9'' = None" "match_short ''abc_-9'' = None"
    by simp_all
  note laws = parseVideoId_laws [of "''abc_-9''" "''https://youtu.be/abc_-9?t=1''" "''abc_-9''"
      "CHR ''?''" "''https''" "''https://www.youtube.com/watch''" "''&t=10''"
      "''www.youtube.com/watch''" "''?t=1''" "''not a link''"]
  show ?thesis
    using b n f laws by simp
qed

text \<open>
  C9 as stated fails for \<open>parseVideoId\<close>: the group of the first pattern runs up to the
  next \<^verbatim>\<open>&\<close>, so it can hold another \<^verbatim>\<open>?v=\<close>, and parsing the result again gives a
  different string.
\<close>

theorem parseVideoId_not_idempotent:
  "parseVideoId ''?v=?v=abc'' = ''?v=abc''
   \<and> parseVideoId (parseVideoId ''?v=?v=abc'') = ''abc''
   \<and> parseVideoId (parseVideoId ''?v=?v=abc'') \<noteq> parseVideoId ''?v=?v=abc''"
  by (simp add: parseVideoId_def)

text \<open>
  The class-based pattern accepts a tail after a short link but wants the identifier of
  a watch link at the end of the string: with a further parameter behind the
  identifier the link comes back as it is, where the prototype-based function gives
  the identifier.
\<close>

lemma parseVideoId_es6_trailing_parameter:
  "parseVideoId_es6 ''https://www.youtube.com/watch?v=abc&t=10''
     = ''https://www.youtube.com/watch?v=abc&t=10''"
  "parseVideoId ''https://www.youtube.com/watch?v=abc&t=10'' = ''abc''"
  by (simp_all add: parseVideoId_es6_def match_url_def strip_scheme_def replace_runs_id
      id_char_def parseVideoId_def)

section \<open>Properties of the listener registry\<close>

subsection \<open>The decrement of a limit\<close>

text \<open>
  The decrement is exact while the result is below \<open>2^53\<close> in magnitude. Above, it is
  rounded: a limit of \<open>2^54\<close> stays where it is, and \<open>2^53 + 2\<close> goes down by two.
\<close>

lemma spacing_small: "m < 2 ^ 53 \<Longrightarrow> spacing m = 1"
  by (subst spacing.simps) simp

lemma to_double_exact: "\<bar>n\<bar> < 2 ^ 53 \<Longrightarrow> to_double n = n"
proof -
  assume "\<bar>n\<bar> < 2 ^ 53"
  then have "nat \<bar>n\<bar> < 2 ^ 53" by (simp add: nat_less_iff)
  then show ?thesis by (simp add: to_double_def spacing_small)
qed

lemma decr_exact: "\<bar>n - 1\<bar> < 2 ^ 53 \<Longrightarrow> decr (Limit n) = Limit (n - 1)"
  using to_double_exact [of "n - 1"] by simp

lemma decr_rounds:
  "decr (Limit (2 ^ 54)) = Limit (2 ^ 54)"
  "decr (Limit (2 ^ 53 + 2)) = Limit (2 ^ 53)"
proof -
  have a: "spacing 18014398509481983 = 2"
    by (subst spacing.simps) (simp add: spacing_small)
  have b: "spacing 9007199254740993 = 2"
    by (subst spacing.simps) (simp add: spacing_small)
  show "decr (Limit (2 ^ 54)) = Limit (2 ^ 54)"
    by (simp add: to_double_def a Let_def)
  show "decr (Limit (2 ^ 53 + 2)) = Limit (2 ^ 53)"
    by (simp add: to_double_def b Let_def)
qed

subsection \<open>Ids as property keys\<close>

lemma digit_cases:
  "d < 10 \<Longrightarrow>
     d = 0 \<or> d = 1 \<or> d = 2 \<or> d = 3 \<or> d = 4 \<or> d = 5 \<or> d = 6 \<or> d = 7 \<or> d = 8 \<or> d = (9::nat)"
  by arith

lemma digit_in: "d < 10 \<Longrightarrow> digit d \<in> set ''0123456789''"
  using digit_cases [of d] by (auto simp: digit_def)

lemma digit_inj: "d < 10 \<Longrightarrow> e < 10 \<Longrightarrow> digit d = digit e \<Longrightarrow> d = e"
  using digit_cases [of d] digit_cases [of e] by (auto simp: digit_def)

lemma show_nat_digits: "set (show_nat n) \<subseteq> set ''0123456789''"
proof (induction n rule: show_nat.induct)
  case (1 n)
  show ?case
  proof (cases "n < 10")
    case True
    then show ?thesis using digit_in [of n] by (subst show_nat.simps) simp
  next
    case False
    have "n mod 10 < 10" by simp
    then have "digit (n mod 10) \<in> set ''0123456789''" by (rule digit_in)
    then show ?thesis using False 1 by (subst show_nat.simps) simp
  qed
qed

lemma show_nat_nonempty: "show_nat n \<noteq> []"
  by (subst show_nat.simps) simp

lemma show_nat_inj: "show_nat m = show_nat n \<Longrightarrow> m = n"
proof (induction m arbitrary: n rule: show_nat.induct)
  case (1 m)
  show ?case
  proof (cases "m < 10")
    case m: True
    show ?thesis
    proof (cases "n < 10")
      case True
      then show ?thesis using m "1.prems" digit_inj [of m n]
        by (simp add: show_nat.simps [of m] show_nat.simps [of n])
    next
      case False
      then show ?thesis using m "1.prems" show_nat_nonempty [of "n div 10"]
        by (simp add: show_nat.simps [of m] show_nat.simps [of n])
    qed
  next
    case m: False
    show ?thesis
    proof (cases "n < 10")
      case True
      then show ?thesis using m "1.prems" show_nat_nonempty [of "m div 10"]
        by (simp add: show_nat.simps [of m] show_nat.simps [of n])
    next
      case False
      then have eq: "show_nat (m div 10) = show_nat (n div 10)"
        "digit (m mod 10) = digit (n mod 10)"
        using m "1.prems" by (simp_all add: show_nat.simps [of m] show_nat.simps [of n])
      have "m div 10 = n div 10" using "1.IH" [OF m eq(1)] .
      moreover have "m mod 10 = n mod 10" using eq(2) by (intro digit_inj) simp_all
      ultimately show ?thesis by (metis div_mult_mod_eq)
    qed
  qed
qed

lemma show_nat_all_digits: "list_all (\<lambda>c. c \<in> set ''0123456789'') (show_nat n)"
  using show_nat_digits [of n] unfolding list_all_iff by blast

lemma show_nat_no_colon: "CHR '':'' \<notin> set (show_nat n)"
proof
  assume "CHR '':'' \<in> set (show_nat n)"
  then have "CHR '':'' \<in> set ''0123456789''"
    using show_nat_digits [of n] by blast
  then show False by simp
qed

lemma digits_not_name:
  assumes "list_all (\<lambda>c. c \<in> set ''0123456789'') s"
  shows "s \<noteq> ''nextId''" and "s \<noteq> ''NaN''" and "s \<noteq> ''undefined''"
    and "s \<notin> set Object_prototype"
proof -
  show "s \<noteq> ''nextId''" using assms by (cases s) auto
  show "s \<noteq> ''NaN''" using assms by (cases s) auto
  show "s \<noteq> ''undefined''" using assms by (cases s) auto
  show "s \<notin> set Object_prototype" using assms by (cases s) (auto simp: Object_prototype_def)
qed

lemmas show_nat_not_names = digits_not_name [OF show_nat_all_digits]

lemma show_nat_1: "show_nat (Suc 0) = ''1''"
  by (simp add: show_nat.simps digit_def)

lemma id_key_no_colon: "CHR '':'' \<notin> set (id_key i)"
  by (cases i) (simp_all add: show_nat_no_colon)

lemma split2_handle:
  "CHR '':'' \<notin> set e \<Longrightarrow> CHR '':'' \<notin> set k \<Longrightarrow> split2 (e @ '':'' @ k) = (e, Some k)"
proof -
  assume e: "CHR '':'' \<notin> set e" and k: "CHR '':'' \<notin> set k"
  have 1: "takeWhile (\<lambda>c. c \<noteq> CHR '':'') (e @ CHR '':'' # k) = e"
    using e by (induction e) auto
  have 2: "dropWhile (\<lambda>c. c \<noteq> CHR '':'') (e @ CHR '':'' # k) = CHR '':'' # k"
    using e by (induction e) auto
  have 3: "takeWhile (\<lambda>c. c \<noteq> CHR '':'') k = k"
    using k by (induction k) auto
  show ?thesis by (simp add: split2_def 1 2 3)
qed

lemma map_of_show:
  "map_of (map (\<lambda>(i, l). (show_nat i, l)) xs) (show_nat n) = map_of xs n"
  by (induction xs) (auto dest: show_nat_inj)

lemma map_of_show_Some:
  "map_of (map (\<lambda>(i, l). (show_nat i, l)) xs) k = Some l \<Longrightarrow> \<exists>n. k = show_nat n"
  by (induction xs) (auto split: if_splits)

lemma map_of_show_filter:
  "map_of (map (\<lambda>(i, l). (show_nat i, l)) (filter (\<lambda>(i, l). show_nat i \<noteq> k) xs)) k = None"
  by (induction xs) auto

lemma filter_show_None:
  "map_of (map (\<lambda>(i, l). (show_nat i, l)) xs) k = None
   \<Longrightarrow> filter (\<lambda>(i, l). show_nat i \<noteq> k) xs = xs"
  by (induction xs) (auto split: if_splits)

lemma delete_missing: "get_prop ls key = Missing \<Longrightarrow> delete_prop ls key = ls"
  by (cases ls)
     (auto simp: get_prop_def delete_prop_def filter_show_None split: if_splits option.splits)

lemma deleted_missing:
  "get_prop ls key = Record l \<Longrightarrow> get_prop (delete_prop ls key) key = Missing"
proof -
  assume r: "get_prop ls key = Record l"
  consider "key = ''nextId''" | "key = ''NaN''" | "key \<noteq> ''nextId''" "key \<noteq> ''NaN''"
    by blast
  then show ?thesis
  proof cases
    case 1
    then show ?thesis by (simp add: get_prop_def delete_prop_def)
  next
    case 2
    then show ?thesis by (simp add: get_prop_def delete_prop_def)
  next
    case 3
    have "map_of (map (\<lambda>(i, l). (show_nat i, l)) (byId ls)) key \<noteq> None"
    proof
      assume "map_of (map (\<lambda>(i, l). (show_nat i, l)) (byId ls)) key = None"
      then have "get_prop ls key \<noteq> Record l"
        using 3 by (simp add: get_prop_def)
      then show False using r by simp
    qed
    then obtain l' where "map_of (map (\<lambda>(i, l). (show_nat i, l)) (byId ls)) key = Some l'"
      by blast
    then have "\<exists>n. key = show_nat n"
      by (rule map_of_show_Some)
    then obtain n where "key = show_nat n"
      by blast
    then have "key \<notin> set Object_prototype"
      by (simp add: show_nat_not_names)
    then show ?thesis using 3
      by (simp add: get_prop_def delete_prop_def map_of_show_filter)
  qed
qed

lemma get_set_listener: "get_prop (set_listener ls i l) (id_key i) = Record l"
proof (cases i)
  case (IdNum n)
  then show ?thesis
    by (simp add: get_prop_def set_listener_def show_nat_not_names map_of_show update_conv')
next
  case IdNaN
  then show ?thesis
    by (simp add: get_prop_def set_listener_def)
qed

lemma listenersByName_apply_handler:
  "listenersByName (apply_handler e i l args st) = listenersByName st"
  by (simp add: apply_handler_def split: prod.splits)

lemma on_handle: "fst (on e h lim st) = e @ '':'' @ id_key (next_id st e)"
  by (simp add: on_def Let_def next_id_def new_listeners_def split: option.splits)

lemma on_registers:
  "\<exists>ls. listenersByName (snd (on e h lim st)) e
          = Some (set_listener ls (next_id st e)
                    \<lparr>handler = h,
                     limit = (if e = ''ready'' \<and> readyArguments st \<noteq> None
                              then decr (case lim of None \<Rightarrow> Infinity | Some n \<Rightarrow> n)
                              else (case lim of None \<Rightarrow> Infinity | Some n \<Rightarrow> n))\<rparr>)"
  by (auto simp: on_def Let_def next_id_def new_listeners_def listenersByName_apply_handler
      split: option.splits)

lemma on_then_off:
  assumes "CHR '':'' \<notin> set e"
  shows "fst (off (fst (on e h lim st)) (snd (on e h lim st))) = Inr (Some h)"
    and "\<exists>ls. listenersByName (snd (off (fst (on e h lim st)) (snd (on e h lim st)))) e = Some ls
              \<and> get_prop ls (id_key (next_id st e)) = Missing"
proof -
  obtain ls where ls: "listenersByName (snd (on e h lim st)) e
          = Some (set_listener ls (next_id st e)
                    \<lparr>handler = h,
                     limit = (if e = ''ready'' \<and> readyArguments st \<noteq> None
                              then decr (case lim of None \<Rightarrow> Infinity | Some n \<Rightarrow> n)
                              else (case lim of None \<Rightarrow> Infinity | Some n \<Rightarrow> n))\<rparr>)"
    using on_registers by blast
  have sp: "split2 (fst (on e h lim st)) = (e, Some (id_key (next_id st e)))"
    unfolding on_handle by (rule split2_handle [OF assms id_key_no_colon])
  show "fst (off (fst (on e h lim st)) (snd (on e h lim st))) = Inr (Some h)"
    by (simp add: off_def sp ls get_set_listener)
  show "\<exists>ls. listenersByName (snd (off (fst (on e h lim st)) (snd (on e h lim st)))) e = Some ls
              \<and> get_prop ls (id_key (next_id st e)) = Missing"
    by (simp add: off_def sp ls get_set_listener deleted_missing)
qed

lemma x_session_fields:
  "listenersByName x_session ''x''
     = Some \<lparr>nextId = Some (IdNum 2), byId = [(1, \<lparr>handler = counting, limit = Infinity\<rparr>)],
             byNaN = None\<rparr>"
  "listenersByName x_session ''y'' = None"
  by (simp_all add: x_session_def on_def new_session_def new_listeners_def set_listener_def)

lemma colon_session_fields:
  "listenersByName colon_session ''a:b''
     = Some \<lparr>nextId = Some (IdNum 2), byId = [(1, \<lparr>handler = counting, limit = Limit 0\<rparr>)],
             byNaN = None\<rparr>"
  "listenersByName colon_session ''a'' = None"
  "world colon_session = 0" "calls colon_session = []" "timers colon_session = []"
  by (simp_all add: colon_session_def on_def new_session_def new_listeners_def set_listener_def)

lemma colon_pair_fields:
  "listenersByName colon_pair ''a:b''
     = Some \<lparr>nextId = Some (IdNum 3),
             byId = [(1, \<lparr>handler = counting, limit = Limit 0\<rparr>),
                     (2, \<lparr>handler = counting, limit = Infinity\<rparr>)],
             byNaN = None\<rparr>"
  "listenersByName colon_pair ''a'' = None"
  "world colon_pair = 0" "calls colon_pair = []" "timers colon_pair = []"
  by (simp_all add: colon_pair_def on_def colon_session_fields set_listener_def)

subsection \<open>Unsubscribing\<close>

text \<open>
  C8. \<open>off\<close> has no path for a handle without a record. On a new instance
  \<^verbatim>\<open>yta.off('x:1')\<close> reads \<^verbatim>\<open>_listenersByName['x']\<close>, which is \<open>undefined\<close>, and the
  lookup of the id in it throws a \<open>TypeError\<close>; \<open>trigger\<close> guards the same lookup and
  returns. With the record already removed, the second \<^verbatim>\<open>yta.off('x:1')\<close> throws at
  \<^verbatim>\<open>listener.handler\<close>. And the handle \<^verbatim>\<open>a:b:1\<close> that \<open>on\<close> returns for the event
  name \<^verbatim>\<open>a:b\<close> is read as event \<^verbatim>\<open>a\<close>, id \<^verbatim>\<open>b\<close>: \<open>off\<close> throws and the record
  stays. For the handle of an event name without a colon, \<open>off\<close> removes the record
  and returns the handler (\<open>on_then_off\<close>).
\<close>

theorem off_not_found:
  "fst (off ''x:1'' (new_session (0::nat))) = Inl TypeError
   \<and> fst (trigger ''x'' [] (new_session (0::nat))) = Inr Undefined
   \<and> fst (off ''x:1'' x_session) = Inr (Some counting)
   \<and> fst (off ''x:1'' (snd (off ''x:1'' x_session))) = Inl TypeError
   \<and> fst (on ''a:b'' counting None (new_session 0)) = ''a:b:1''
   \<and> fst (off ''a:b:1'' (snd (on ''a:b'' counting None (new_session 0)))) = Inl TypeError
   \<and> (case listenersByName
             (snd (off ''a:b:1'' (snd (on ''a:b'' counting None (new_session 0))))) ''a:b'' of
        None \<Rightarrow> []
      | Some ls \<Rightarrow> map fst (byId ls)) = [1]"
  by (simp add: off_def Let_def split2_def new_session_def x_session_fields get_prop_def
      delete_prop_def show_nat_1 Object_prototype_def trigger_def on_def new_listeners_def
      set_listener_def)

subsection \<open>Subscribing to ready after the widget is ready\<close>

lemma readyEvent_callbacks:
  "readyEvent (foldl (run_callback event) st cbs) = readyEvent st"
  by (induction cbs arbitrary: st) (simp_all add: run_callback_def split: prod.splits)

text \<open>
  In the prototype-based variant nothing assigns \<^verbatim>\<open>_readyEvent\<close>: it is \<open>null\<close> on a
  new instance and stays so through \<open>addAudio\<close> and the widget's ready callback.
\<close>

lemma readyEvent_never_stored:
  "readyEvent (init opts w) = Null"
  "readyEvent (addAudio random_sort wd names st) = readyEvent st"
  "readyEvent (player_onReady event st) = readyEvent st"
  by (simp_all add: init_def addAudio_def new_array_def player_onReady_def triggerHandlers_def
      Let_def readyEvent_callbacks)

text \<open>
  The class-based variant keeps the arguments of the widget's ready callback: once
  they are stored, \<open>on\<close> for the event \<^verbatim>\<open>ready\<close> registers the listener with its limit
  lowered, and with a limit above 0 (the default is unbounded) it calls the handler at
  once with the stored arguments and queues what the handler throws.
\<close>

lemma on_replays_ready:
  assumes ra: "readyArguments st = Some ra"
  shows "listenersByName (snd (on ''ready'' h lim st)) ''ready''
           = Some (set_listener
                     ((case listenersByName st ''ready'' of
                         None \<Rightarrow> new_listeners
                       | Some ls \<Rightarrow> ls)\<lparr>nextId := Some (incr (next_id st ''ready''))\<rparr>)
                     (next_id st ''ready'')
                     \<lparr>handler = h,
                      limit = decr (case lim of None \<Rightarrow> Infinity | Some n \<Rightarrow> n)\<rparr>)"
    and "positive (case lim of None \<Rightarrow> Infinity | Some n \<Rightarrow> n) \<Longrightarrow>
           world (snd (on ''ready'' h lim st)) = snd (h ra (world st))
         \<and> calls (snd (on ''ready'' h lim st))
             = calls st @ [(''ready'', next_id st ''ready'', ra)]
         \<and> timers (snd (on ''ready'' h lim st))
             = timers st @ (case fst (h ra (world st)) of None \<Rightarrow> [] | Some x \<Rightarrow> [x])"
proof -
  show "listenersByName (snd (on ''ready'' h lim st)) ''ready''
           = Some (set_listener
                     ((case listenersByName st ''ready'' of
                         None \<Rightarrow> new_listeners
                       | Some ls \<Rightarrow> ls)\<lparr>nextId := Some (incr (next_id st ''ready''))\<rparr>)
                     (next_id st ''ready'')
                     \<lparr>handler = h,
                      limit = decr (case lim of None \<Rightarrow> Infinity | Some n \<Rightarrow> n)\<rparr>)"
    using ra
    by (auto simp: on_def Let_def next_id_def new_listeners_def listenersByName_apply_handler
        split: option.splits)
  show "positive (case lim of None \<Rightarrow> Infinity | Some n \<Rightarrow> n) \<Longrightarrow>
           world (snd (on ''ready'' h lim st)) = snd (h ra (world st))
         \<and> calls (snd (on ''ready'' h lim st))
             = calls st @ [(''ready'', next_id st ''ready'', ra)]
         \<and> timers (snd (on ''ready'' h lim st))
             = timers st @ (case fst (h ra (world st)) of None \<Rightarrow> [] | Some x \<Rightarrow> [x])"
    using ra
    by (simp add: on_def Let_def apply_handler_def next_id_def new_listeners_def
        split: prod.splits option.splits)
qed

text \<open>
  C3. In the prototype-based variant a callback given to \<open>onReady\<close> before the widget
  is ready is called with the event object of the widget's ready callback. A callback
  given to \<open>onReady\<close> afterwards is called at once, but with \<^verbatim>\<open>this._readyEvent\<close>,
  which nothing has assigned: it gets \<open>null\<close>, not the event. In the class-based
  variant the same late subscription gets the stored event.
\<close>

theorem ready_event_lost:
  "world early_subscriber = [Object 0]
   \<and> isReady (player_onReady (Object 0) (addAudio id quiet_widget example_names new_yta))
   \<and> fst late_subscriber = Inr (Value (Bool True))
   \<and> world (snd late_subscriber) = [Null]
   \<and> readyArguments ready_session = Some [Object 0]
   \<and> calls (snd (on ''ready'' counting None ready_session))
       = [(''ready'', IdNum 1, [Object 0])]"
  by (simp add: early_subscriber_def late_subscriber_def new_yta_def init_def onReady_def
      nth_arg_def addAudio_def new_array_def player_onReady_def triggerHandlers_def
      run_callback_def recording_def Let_def ready_session_def new_session_def on_def
      apply_handler_def new_listeners_def counting_def)

subsection \<open>Dispatch for event names without a colon\<close>

text \<open>
  For an event name without a colon, \<open>off\<close> reads the handle that \<open>trigger\<close> builds
  back as it was built, so the loop of \<open>trigger\<close> is a fold of \<open>visit\<close> over the
  ids and never throws (\<open>loop_fold\<close>). Then a listener of limit \<open>n\<close>, for \<open>n\<close> up to
  \<open>2^53\<close> where the decrement is exact, is called on each of the first \<open>n\<close>
  dispatches and on no later one, and the dispatch after the \<open>n\<close>-th removes its
  record (\<open>budget_law\<close>); and one dispatch calls the live
  listeners in ascending order of their ids, each whatever the ones before have
  thrown, and queues what they throw (\<open>dispatch_order\<close>). The fixed callback lists of
  the prototype-based variant are run the same way (\<open>triggerHandlers_runs_all\<close>).
\<close>

lemma filter_show_id:
  "filter (\<lambda>(k, r). show_nat k \<noteq> show_nat i) xs = filter (\<lambda>(k, r). k \<noteq> i) xs"
  by (induction xs) (auto dest: show_nat_inj)

lemma filter_update_same:
  "filter (\<lambda>(k, r). k \<noteq> i) (AList.update i v xs) = filter (\<lambda>(k, r). k \<noteq> i) xs"
  by (induction xs) auto

lemma off_in_loop:
  assumes e: "CHR '':'' \<notin> set e"
    and ls: "listenersByName st e = Some ls"
    and l: "map_of (byId ls) i = Some l"
  shows "off (e @ '':'' @ show_nat i) st =
           (Inr (Some (handler l)),
            st\<lparr>listenersByName := (listenersByName st)
                  (e \<mapsto> ls\<lparr>byId := filter (\<lambda>(k, r). k \<noteq> i) (byId ls)\<rparr>)\<rparr>)"
proof -
  have sp: "split2 (e @ '':'' @ show_nat i) = (e, Some (show_nat i))"
    by (rule split2_handle [OF e show_nat_no_colon])
  have g: "get_prop ls (show_nat i) = Record l"
    using l by (simp add: get_prop_def show_nat_not_names map_of_show)
  have d: "delete_prop ls (show_nat i) = ls\<lparr>byId := filter (\<lambda>(k, r). k \<noteq> i) (byId ls)\<rparr>"
    by (simp add: delete_prop_def show_nat_not_names filter_show_id)
  show ?thesis
    using sp by (simp add: off_def ls g d)
qed

lemma visit_table:
  "listenersByName st e \<noteq> None \<Longrightarrow> listenersByName (visit e args st i) e \<noteq> None"
  by (auto simp: visit_def listenersByName_apply_handler split: option.splits)

lemma loop_step:
  assumes e: "CHR '':'' \<notin> set e"
  shows "trigger_loop e args (i # ids) st = trigger_loop e args ids (visit e args st i)"
proof (cases "listenersByName st e")
  case None
  then show ?thesis
    by (cases ids) (simp_all add: visit_def)
next
  case (Some ls)
  show ?thesis
  proof (cases "map_of (byId ls) i")
    case None
    then show ?thesis using Some by (simp add: visit_def)
  next
    case l: (Some l)
    show ?thesis
    proof (cases "positive (limit l)")
      case True
      then show ?thesis using Some l by (simp add: visit_def)
    next
      case False
      let ?st1 = "st\<lparr>listenersByName := (listenersByName st)
                       (e \<mapsto> ls\<lparr>byId := AList.update i (l\<lparr>limit := decr (limit l)\<rparr>) (byId ls)\<rparr>)\<rparr>"
      have "off (e @ '':'' @ show_nat i) ?st1 =
              (Inr (Some (handler l)),
               st\<lparr>listenersByName := (listenersByName st)
                     (e \<mapsto> ls\<lparr>byId := filter (\<lambda>(k, r). k \<noteq> i) (byId ls)\<rparr>)\<rparr>)"
        using off_in_loop [OF e, of ?st1
            "ls\<lparr>byId := AList.update i (l\<lparr>limit := decr (limit l)\<rparr>) (byId ls)\<rparr>" i
            "l\<lparr>limit := decr (limit l)\<rparr>"]
        by (simp add: update_conv' filter_update_same)
      then show ?thesis using Some l False by (simp add: visit_def)
    qed
  qed
qed

lemma loop_fold:
  assumes e: "CHR '':'' \<notin> set e"
  shows "trigger_loop e args ids st = (None, foldl (visit e args) st ids)"
proof (induction ids arbitrary: st)
  case Nil
  show ?case by simp
next
  case (Cons i ids)
  show ?case
    unfolding loop_step [OF e] by (simp add: Cons.IH)
qed

lemma map_of_filter_key:
  "map_of (filter (\<lambda>(k, r). k \<noteq> j) xs) i = (if i = j then None else map_of xs i)"
  by (induction xs) auto

lemma count_calls_apply_handler:
  "count_calls e i (apply_handler e' j l args st)
     = count_calls e i st + (if e' = e \<and> j = IdNum i then 1 else 0)"
  by (simp add: count_calls_def apply_handler_def split: prod.splits)

lemma count_calls_update:
  "count_calls e i (st\<lparr>listenersByName := x\<rparr>) = count_calls e i st"
  by (simp add: count_calls_def)

lemma listener_of_visit:
  "listener_of (visit e args st j) e i =
     (if i = j
      then (case listener_of st e i of
              None \<Rightarrow> None
            | Some l \<Rightarrow> if positive (limit l) then Some (l\<lparr>limit := decr (limit l)\<rparr>) else None)
      else listener_of st e i)"
  by (simp add: listener_of_def visit_def listenersByName_apply_handler update_conv'
      map_of_filter_key split: option.splits)

lemma count_calls_visit:
  "count_calls e i (visit e args st j) =
     count_calls e i st
     + (if i = j \<and> (case listener_of st e i of None \<Rightarrow> False | Some l \<Rightarrow> positive (limit l))
        then 1 else 0)"
  by (auto simp: listener_of_def visit_def count_calls_apply_handler count_calls_update
      split: option.splits)

lemma fold_visit_other:
  "i \<notin> set ids \<Longrightarrow>
     listener_of (foldl (visit e args) st ids) e i = listener_of st e i
     \<and> count_calls e i (foldl (visit e args) st ids) = count_calls e i st"
proof (induction ids arbitrary: st)
  case Nil
  show ?case by simp
next
  case (Cons j ids)
  then have "i \<noteq> j" "i \<notin> set ids" by auto
  then show ?case
    using Cons.IH [of "visit e args st j"]
    by (simp add: listener_of_visit count_calls_visit)
qed

lemma fold_visit_once:
  "distinct ids \<Longrightarrow> i \<in> set ids \<Longrightarrow>
     listener_of (foldl (visit e args) st ids) e i = listener_of (visit e args st i) e i
     \<and> count_calls e i (foldl (visit e args) st ids) = count_calls e i (visit e args st i)"
proof (induction ids arbitrary: st)
  case Nil
  then show ?case by simp
next
  case (Cons j ids)
  show ?case
  proof (cases "i = j")
    case True
    then have "i \<notin> set ids" using Cons.prems by simp
    then show ?thesis
      using True fold_visit_other [of i ids e args "visit e args st j"] by simp
  next
    case False
    then have "distinct ids" "i \<in> set ids" using Cons.prems by auto
    then have "listener_of (foldl (visit e args) (visit e args st j) ids) e i
                 = listener_of (visit e args (visit e args st j) i) e i
               \<and> count_calls e i (foldl (visit e args) (visit e args st j) ids)
                 = count_calls e i (visit e args (visit e args st j) i)"
      by (rule Cons.IH)
    then show ?thesis
      using False by (simp add: listener_of_visit count_calls_visit)
  qed
qed

lemma for_in_ids_distinct: "distinct (for_in_ids ls)"
  by (simp add: for_in_ids_def)

lemma for_in_ids_set: "i \<in> set (for_in_ids ls) \<longleftrightarrow> map_of (byId ls) i \<noteq> None"
  by (simp add: for_in_ids_def map_of_eq_None_iff)

lemma trigger_fold:
  assumes "CHR '':'' \<notin> set e" and "listenersByName st e = Some ls"
  shows "trigger e args st = (Inr This, foldl (visit e args) st (for_in_ids ls))"
  using assms by (simp add: trigger_def loop_fold)

lemma trigger_one:
  assumes e: "CHR '':'' \<notin> set e"
  shows "listener_of (snd (trigger e args st)) e i =
           (case listener_of st e i of
              None \<Rightarrow> None
            | Some l \<Rightarrow> if positive (limit l) then Some (l\<lparr>limit := decr (limit l)\<rparr>) else None)"
    and "count_calls e i (snd (trigger e args st)) =
           count_calls e i st
           + (case listener_of st e i of None \<Rightarrow> 0 | Some l \<Rightarrow> if positive (limit l) then 1 else 0)"
proof -
  show "listener_of (snd (trigger e args st)) e i =
           (case listener_of st e i of
              None \<Rightarrow> None
            | Some l \<Rightarrow> if positive (limit l) then Some (l\<lparr>limit := decr (limit l)\<rparr>) else None)"
  proof (cases "listenersByName st e")
    case None
    then show ?thesis by (simp add: trigger_def listener_of_def)
  next
    case (Some ls)
    show ?thesis
    proof (cases "i \<in> set (for_in_ids ls)")
      case True
      then show ?thesis
        using fold_visit_once [OF for_in_ids_distinct True, of e args st]
        by (simp add: trigger_fold [OF e Some] listener_of_visit)
    next
      case False
      then have "listener_of st e i = None"
        using Some by (simp add: for_in_ids_set listener_of_def)
      then show ?thesis
        using fold_visit_other [OF False, of e args st]
        by (simp add: trigger_fold [OF e Some])
    qed
  qed
  show "count_calls e i (snd (trigger e args st)) =
           count_calls e i st
           + (case listener_of st e i of None \<Rightarrow> 0 | Some l \<Rightarrow> if positive (limit l) then 1 else 0)"
  proof (cases "listenersByName st e")
    case None
    then show ?thesis by (simp add: trigger_def listener_of_def)
  next
    case (Some ls)
    show ?thesis
    proof (cases "i \<in> set (for_in_ids ls)")
      case True
      then show ?thesis
        using fold_visit_once [OF for_in_ids_distinct True, of e args st]
        by (simp add: trigger_fold [OF e Some] count_calls_visit split: option.splits)
    next
      case False
      then have "listener_of st e i = None"
        using Some by (simp add: for_in_ids_set listener_of_def)
      then show ?thesis
        using fold_visit_other [OF False, of e args st]
        by (simp add: trigger_fold [OF e Some])
    qed
  qed
qed

lemma dispatches_gone:
  assumes e: "CHR '':'' \<notin> set e"
  shows "listener_of st e i = None \<Longrightarrow>
           listener_of (dispatches e argss st) e i = None
           \<and> count_calls e i (dispatches e argss st) = count_calls e i st"
proof (induction argss arbitrary: st)
  case Nil
  then show ?case by (simp add: dispatches_def)
next
  case (Cons a argss)
  have "listener_of (snd (trigger e a st)) e i = None"
    "count_calls e i (snd (trigger e a st)) = count_calls e i st"
    using Cons.prems by (simp_all add: trigger_one [OF e])
  then show ?case
    using Cons.IH [of "snd (trigger e a st)"] by (simp add: dispatches_def)
qed

lemma budget_law:
  assumes e: "CHR '':'' \<notin> set e"
  shows "listener_of st e i = Some l \<Longrightarrow> limit l = Limit (int n) \<Longrightarrow> n \<le> 2 ^ 53 \<Longrightarrow>
           count_calls e i (dispatches e argss st) = count_calls e i st + min (length argss) n
           \<and> (length argss \<le> n \<longrightarrow>
                listener_of (dispatches e argss st) e i
                  = Some (l\<lparr>limit := Limit (int n - int (length argss))\<rparr>))
           \<and> (n < length argss \<longrightarrow> listener_of (dispatches e argss st) e i = None)"
proof (induction argss arbitrary: st l n)
  case Nil
  then show ?case by (simp add: dispatches_def)
next
  case (Cons a argss)
  show ?case
  proof (cases n)
    case 0
    then have "listener_of (snd (trigger e a st)) e i = None"
      "count_calls e i (snd (trigger e a st)) = count_calls e i st"
      using Cons.prems by (simp_all add: trigger_one [OF e])
    then show ?thesis
      using 0 dispatches_gone [OF e, of "snd (trigger e a st)" i argss]
      by (simp add: dispatches_def)
  next
    case (Suc m)
    have d: "decr (Limit (int n)) = Limit (int m)"
      using Suc Cons.prems(3) decr_exact [of "int n"] by simp
    have 1: "listener_of (snd (trigger e a st)) e i = Some (l\<lparr>limit := Limit (int m)\<rparr>)"
      and 2: "count_calls e i (snd (trigger e a st)) = count_calls e i st + 1"
      using Suc Cons.prems d by (simp_all add: trigger_one [OF e] del: decr.simps)
    have 3: "limit (l\<lparr>limit := Limit (int m)\<rparr>) = Limit (int m)" by simp
    have 4: "m \<le> 2 ^ 53" using Suc Cons.prems(3) by simp
    note IH = Cons.IH [OF 1 3 4]
    show ?thesis
      using IH Suc 2 by (simp add: dispatches_def)
  qed
qed

lemma fold_run_callback:
  "world (foldl (run_callback event) st cbs) = snd (run_handlers [event] cbs (world st))
   \<and> timers (foldl (run_callback event) st cbs)
       = timers st @ fst (run_handlers [event] cbs (world st))"
proof (induction cbs arbitrary: st)
  case Nil
  show ?case by simp
next
  case (Cons cb cbs)
  show ?case
    using Cons.IH [of "run_callback event st cb"]
    by (simp add: run_callback_def split: prod.splits)
qed

lemma triggerHandlers_runs_all:
  "world (triggerHandlers name event st)
     = snd (run_handlers [event] (case callbacks st name of None \<Rightarrow> [] | Some cs \<Rightarrow> cs) (world st))
   \<and> timers (triggerHandlers name event st)
     = timers st
       @ fst (run_handlers [event] (case callbacks st name of None \<Rightarrow> [] | Some cs \<Rightarrow> cs) (world st))"
  using fold_run_callback
    [of event "st\<lparr>callbacks := (callbacks st)
                   (name \<mapsto> (case callbacks st name of None \<Rightarrow> [] | Some cs \<Rightarrow> cs))\<rparr>"
        "case callbacks st name of None \<Rightarrow> [] | Some cs \<Rightarrow> cs"]
  by (simp add: triggerHandlers_def Let_def)

lemma visit_effect:
  "listener_of st e j = Some l \<Longrightarrow> positive (limit l) \<Longrightarrow>
     calls (visit e args st j) = calls st @ [(e, IdNum j, args)]
     \<and> world (visit e args st j) = snd (handler l args (world st))
     \<and> timers (visit e args st j)
         = timers st @ (case fst (handler l args (world st)) of None \<Rightarrow> [] | Some v \<Rightarrow> [v])"
  by (auto simp: listener_of_def visit_def apply_handler_def split: option.splits prod.splits)

lemma visit_no_effect:
  "listener_of st e j = None \<or> (\<exists>l. listener_of st e j = Some l \<and> \<not> positive (limit l)) \<Longrightarrow>
     calls (visit e args st j) = calls st
     \<and> world (visit e args st j) = world st
     \<and> timers (visit e args st j) = timers st"
  by (auto simp: listener_of_def visit_def split: option.splits)

lemma fold_visit_runs:
  "distinct ids \<Longrightarrow> (\<forall>i\<in>set ids. listener_of st e i = f i) \<Longrightarrow>
     calls (foldl (visit e args) st ids)
       = calls st @ map (\<lambda>(i, l). (e, IdNum i, args)) (live f ids)
     \<and> world (foldl (visit e args) st ids)
       = snd (run_handlers args (map (\<lambda>(i, l). handler l) (live f ids)) (world st))
     \<and> timers (foldl (visit e args) st ids)
       = timers st @ fst (run_handlers args (map (\<lambda>(i, l). handler l) (live f ids)) (world st))"
proof (induction ids arbitrary: st)
  case Nil
  show ?case by (simp add: live_def)
next
  case (Cons j ids)
  have d: "distinct ids" and nj: "j \<notin> set ids" using Cons.prems by auto
  have rest: "\<forall>i\<in>set ids. listener_of (visit e args st j) e i = f i"
    using Cons.prems nj by (auto simp: listener_of_visit)
  note IH = Cons.IH [OF d rest]
  have fj: "listener_of st e j = f j" using Cons.prems by simp
  show ?case
  proof (cases "f j")
    case None
    then have "calls (visit e args st j) = calls st
     \<and> world (visit e args st j) = world st
     \<and> timers (visit e args st j) = timers st"
      using fj by (intro visit_no_effect) simp
    then show ?thesis using IH None by (simp add: live_def)
  next
    case (Some l)
    show ?thesis
    proof (cases "positive (limit l)")
      case True
      have "calls (visit e args st j) = calls st @ [(e, IdNum j, args)]
     \<and> world (visit e args st j) = snd (handler l args (world st))
     \<and> timers (visit e args st j)
         = timers st @ (case fst (handler l args (world st)) of None \<Rightarrow> [] | Some v \<Rightarrow> [v])"
        using fj Some True by (intro visit_effect) simp_all
      then show ?thesis using IH Some True
        by (simp add: live_def split: prod.splits)
    next
      case False
      then have "calls (visit e args st j) = calls st
     \<and> world (visit e args st j) = world st
     \<and> timers (visit e args st j) = timers st"
        using fj Some by (intro visit_no_effect) simp
      then show ?thesis using IH Some False by (simp add: live_def)
    qed
  qed
qed

lemma dispatch_order:
  assumes e: "CHR '':'' \<notin> set e" and ls: "listenersByName st e = Some ls"
  shows "fst (trigger e args st) = Inr This
       \<and> sorted (for_in_ids ls)
       \<and> calls (snd (trigger e args st))
           = calls st @ map (\<lambda>(i, l). (e, IdNum i, args)) (live (map_of (byId ls)) (for_in_ids ls))
       \<and> world (snd (trigger e args st))
           = snd (run_handlers args
                    (map (\<lambda>(i, l). handler l) (live (map_of (byId ls)) (for_in_ids ls))) (world st))
       \<and> timers (snd (trigger e args st))
           = timers st
             @ fst (run_handlers args
                      (map (\<lambda>(i, l). handler l) (live (map_of (byId ls)) (for_in_ids ls))) (world st))"
proof -
  have "\<forall>i\<in>set (for_in_ids ls). listener_of st e i = map_of (byId ls) i"
    using ls by (simp add: listener_of_def)
  then show ?thesis
    using fold_visit_runs [OF for_in_ids_distinct, of ls st e "map_of (byId ls)" args]
    by (simp add: trigger_fold [OF e ls] for_in_ids_def)
qed

subsection \<open>Event names with a colon\<close>

text \<open>
  C2. A listener of limit 0 on the event name \<^verbatim>\<open>a:b\<close> gets the handle
  \<^verbatim>\<open>a:b:1\<close>. The first dispatch finds its limit used up and calls
  \<^verbatim>\<open>this.off('a:b:1')\<close>, which reads the handle as event \<^verbatim>\<open>a\<close>, id \<^verbatim>\<open>b\<close>: there
  is no table for \<^verbatim>\<open>a\<close>, so the \<open>TypeError\<close> of \<open>off\<close> leaves \<open>trigger\<close>, and the
  record stays in the registry.
\<close>

theorem expired_listener_stays:
  "fst (on ''a:b'' counting (Some (Limit 0)) (new_session 0)) = ''a:b:1''
   \<and> fst (trigger ''a:b'' [] colon_session) = Inl TypeError
   \<and> (case listenersByName (snd (trigger ''a:b'' [] colon_session)) ''a:b'' of
        None \<Rightarrow> []
      | Some ls \<Rightarrow> map fst (byId ls)) = [1]
   \<and> calls (snd (trigger ''a:b'' [] colon_session)) = []"
  by (simp add: trigger_def colon_session_fields for_in_ids_def off_def split2_def show_nat_1
      on_def new_session_def new_listeners_def)

text \<open>
  C6. With a second, unlimited listener behind the used-up one on \<^verbatim>\<open>a:b\<close>, the
  dispatch ends at the first: the \<open>TypeError\<close> of \<open>off\<close> reaches the caller of
  \<open>trigger\<close>, and the second listener, which is live, is not called.
\<close>

theorem live_listener_skipped:
  "fst (trigger ''a:b'' [] colon_pair) = Inl TypeError
   \<and> calls (snd (trigger ''a:b'' [] colon_pair)) = []
   \<and> world (snd (trigger ''a:b'' [] colon_pair)) = 0
   \<and> timers (snd (trigger ''a:b'' [] colon_pair)) = []"
  by (simp add: trigger_def colon_pair_fields for_in_ids_def off_def split2_def show_nat_1)

end
